theory Spec2Isabelle
  imports Complex_Main "HOL-Library.Word"
begin

unbundle bit_operations_syntax

section \<open>Conventions of the embedding\<close>

text \<open>
  The development embeds \<^verbatim>\<open>openvdb/tools/RayTracer.h\<close>: the film with its RGBA pixels,
  the orthographic camera, the diffuse shader and the level-set ray tracer.

  \<^item> \<^verbatim>\<open>size_t\<close> is a 64-bit word; its arithmetic wraps.
  \<^item> \<^verbatim>\<open>float\<close> and \<^verbatim>\<open>double\<close> are the real numbers: every operation is exact, and
    rounding, infinities and NaN are outside the model. Nothing is stated here whose
    truth rests on the exactness of a rounded operation: the conversions between focal
    length and field of view, whose round trip is one of \<^verbatim>\<open>atan\<close> and \<^verbatim>\<open>tan\<close> in
    doubles, are left out.
  \<^item> A heap array is a list. An access outside the array, a failed \<^verbatim>\<open>assert\<close>, a
    dereferenced \<^verbatim>\<open>NULL\<close> and a conversion whose result C++ leaves undefined make
    the operation return \<open>None\<close>.
  \<^item> What the header takes from other files is a parameter of the operation that uses
    it: the intersector, the shader and the camera of a tracer, the screen-to-world map
    of a camera, the random generator of \<^verbatim>\<open>setPixelSamples\<close>, and the allocator.
\<close>

type_synonym size_t = "64 word"
type_synonym ValueT = real

section \<open>Film::RGBA\<close>

text \<open>
  The four channels \<^verbatim>\<open>r, g, b, a\<close> of \<^verbatim>\<open>struct RGBA\<close>. The fields carry the suffix
  \<open>C\<close>, since one-letter constants would capture the variables of every later statement.
\<close>

record RGBA =
  rC :: ValueT
  gC :: ValueT
  bC :: ValueT
  aC :: ValueT

text \<open>\<^verbatim>\<open>RGBA() : r(0), g(0), b(0), a(1)\<close>\<close>

definition RGBA_default :: RGBA where
  "RGBA_default = \<lparr>rC = 0, gC = 0, bC = 0, aC = 1\<rparr>"

text \<open>\<^verbatim>\<open>explicit RGBA(ValueT intensity)\<close>\<close>

definition RGBA_intensity :: "ValueT \<Rightarrow> RGBA" where
  "RGBA_intensity intensity = \<lparr>rC = intensity, gC = intensity, bC = intensity, aC = 1\<rparr>"

text \<open>\<^verbatim>\<open>explicit RGBA(ValueT _r, ValueT _g, ValueT _b, ValueT _a=1.0f)\<close> with the alpha
  left at its default.\<close>

definition RGBA3 :: "ValueT \<Rightarrow> ValueT \<Rightarrow> ValueT \<Rightarrow> RGBA" where
  "RGBA3 r' g' b' = \<lparr>rC = r', gC = g', bC = b', aC = 1\<rparr>"

text \<open>\<^verbatim>\<open>operator*(ValueT scale)\<close>: \<^verbatim>\<open>RGBA(r*scale, g*scale, b*scale)\<close>\<close>

definition RGBA_scale :: "RGBA \<Rightarrow> ValueT \<Rightarrow> RGBA" where
  "RGBA_scale c scale = RGBA3 (rC c * scale) (gC c * scale) (bC c * scale)"

text \<open>\<^verbatim>\<open>operator+(const RGBA& rhs)\<close>: \<^verbatim>\<open>RGBA(r+rhs.r, g+rhs.g, b+rhs.b)\<close>\<close>

definition RGBA_plus :: "RGBA \<Rightarrow> RGBA \<Rightarrow> RGBA" where
  "RGBA_plus c rhs = RGBA3 (rC c + rC rhs) (gC c + gC rhs) (bC c + bC rhs)"

text \<open>\<^verbatim>\<open>operator*(const RGBA& rhs)\<close>: \<^verbatim>\<open>RGBA(r*rhs.r, g*rhs.g, b*rhs.b)\<close>\<close>

definition RGBA_times :: "RGBA \<Rightarrow> RGBA \<Rightarrow> RGBA" where
  "RGBA_times c rhs = RGBA3 (rC c * rC rhs) (gC c * gC rhs) (bC c * bC rhs)"

text \<open>\<^verbatim>\<open>operator+=\<close>: \<^verbatim>\<open>r+=rhs.r; g+=rhs.g; b+=rhs.b, a+=rhs.a\<close>. All four channels
  are accumulated.\<close>

definition RGBA_add_assign :: "RGBA \<Rightarrow> RGBA \<Rightarrow> RGBA" where
  "RGBA_add_assign c rhs =
     \<lparr>rC = rC c + rC rhs, gC = gC c + gC rhs, bC = bC c + bC rhs, aC = aC c + aC rhs\<rparr>"

text \<open>
  \<^verbatim>\<open>over\<close> updates the receiver in place; the model returns the new receiver. The
  three colour channels are assigned before \<^verbatim>\<open>a\<close>, so they read the old alpha.
\<close>

definition over :: "RGBA \<Rightarrow> RGBA \<Rightarrow> RGBA" where
  "over c rhs =
     (let s = aC rhs * (1 - aC c) in
      \<lparr>rC = aC c * rC c + s * rC rhs,
       gC = aC c * gC c + s * gC rhs,
       bC = aC c * bC c + s * bC rhs,
       aC = aC c + s\<rparr>)"

section \<open>Vectors and rays\<close>

text \<open>
  Modelled from the spec: \<^verbatim>\<open>Vec3R\<close> and \<^verbatim>\<open>math::Ray<double>\<close> live in
  \<^verbatim>\<open>openvdb/math\<close>, which is not among the sources. A vector is its three
  coordinates, \<open>dot\<close> is the inner product the spec writes \<open>normal \<cdot> rayDirection\<close>,
  and a ray is an eye, a direction and the two clipping times.
\<close>

datatype Vec3R = Vec3R (vx: real) (vy: real) (vz: real)

definition dot :: "Vec3R \<Rightarrow> Vec3R \<Rightarrow> real" where
  "dot u v = vx u * vx v + vy u * vy v + vz u * vz v"

definition neg :: "Vec3R \<Rightarrow> Vec3R" where
  "neg v = Vec3R (- vx v) (- vy v) (- vz v)"

record Ray =
  eye :: Vec3R
  dir :: Vec3R
  t0 :: real
  t1 :: real

definition setEye :: "Ray \<Rightarrow> Vec3R \<Rightarrow> Ray" where
  "setEye ray e = ray\<lparr>eye := e\<rparr>"

definition setDir :: "Ray \<Rightarrow> Vec3R \<Rightarrow> Ray" where
  "setDir ray d = ray\<lparr>dir := d\<rparr>"

section \<open>Shaders\<close>

text \<open>
  \<^verbatim>\<open>BaseShader::operator()\<close> is pure virtual: a shader is the function it computes.
\<close>

type_synonym BaseShader = "Vec3R \<Rightarrow> Vec3R \<Rightarrow> Ray \<Rightarrow> RGBA"

text \<open>\<^verbatim>\<open>MatteShader\<close>: \<^verbatim>\<open>return mRGBA\<close>\<close>

definition MatteShader :: "RGBA \<Rightarrow> BaseShader" where
  "MatteShader mRGBA = (\<lambda>xyz normal ray. mRGBA)"

text \<open>\<^verbatim>\<open>DiffuseShader\<close>: \<^verbatim>\<open>return mRGBA * math::Abs(normal.dot(ray.dir()))\<close>. The
  double is converted to \<^verbatim>\<open>ValueT\<close>, so the product is \<^verbatim>\<open>operator*(ValueT)\<close>.\<close>

definition DiffuseShader :: "RGBA \<Rightarrow> BaseShader" where
  "DiffuseShader mRGBA = (\<lambda>xyz normal ray. RGBA_scale mRGBA \<bar>dot normal (dir ray)\<bar>)"

section \<open>Loops and arrays\<close>

text \<open>
  The C++ statement \<^verbatim>\<open>for (size_t i = b; i < e; ++i) body\<close>. The counter is a
  64-bit word; the body may fail, which ends the loop.
\<close>

function for_loop :: "size_t \<Rightarrow> size_t \<Rightarrow> (size_t \<Rightarrow> 's \<Rightarrow> 's option) \<Rightarrow> 's \<Rightarrow> 's option" where
  "for_loop i ie body s =
     (if i < ie then (case body i s of None \<Rightarrow> None | Some s' \<Rightarrow> for_loop (i + 1) ie body s')
      else Some s)"
  by pat_completeness auto
termination
proof (relation "measure (\<lambda>(i, ie, body, s). unat ie - unat i)")
  show "wf (measure (\<lambda>(i, ie, body, s). unat ie - unat i))" by simp
next
  fix i ie :: size_t and body :: "size_t \<Rightarrow> 's \<Rightarrow> 's option" and s x2 :: 's
  assume lt: "i < ie"
  have less: "unat i < unat ie" using lt by (simp add: word_less_nat_alt)
  moreover have "unat ie < 2 ^ 64" using unsigned_less [of ie] by simp
  ultimately have "unat i + 1 < 2 ^ 64" by linarith
  then have "unat (i + 1) = Suc (unat i)" by (simp add: unat_word_ariths)
  with less show "((i + 1, ie, body, x2), (i, ie, body, s))
                   \<in> measure (\<lambda>(i, ie, body, s). unat ie - unat i)"
    by simp
qed

declare for_loop.simps [simp del]

text \<open>Reading an array element; outside the array the behaviour is undefined.\<close>

definition array_get :: "'a list \<Rightarrow> nat \<Rightarrow> 'a option" where
  "array_get xs n = (if n < length xs then Some (xs ! n) else None)"

section \<open>Film\<close>

record Film =
  mWidth :: size_t
  mHeight :: size_t
  mSize :: size_t
  mPixels :: "RGBA list"

text \<open>
  How an operation of the film can end without its result: \<^verbatim>\<open>new\<close> throws, the
  output stream of \<^verbatim>\<open>savePPM\<close> does not open, or the behaviour is undefined. The
  source has no other error, and none for an argument.
\<close>

datatype error = BadAlloc | OpenFailed | Undefined

text \<open>
  \<^verbatim>\<open>Film(size_t width, size_t height)\<close>:
  \<^verbatim>\<open>mWidth(width), mHeight(height), mSize(width*height), mPixels(new RGBA[mSize])\<close>.
  The product wraps. \<^verbatim>\<open>new\<close> default-constructs every pixel and throws
  \<^verbatim>\<open>std::bad_alloc\<close> when the memory is not there, which the parameter \<open>alloc\<close>
  (the number of elements that can be had) decides. The constructor checks nothing else.
\<close>

definition Film_ctor :: "(nat \<Rightarrow> bool) \<Rightarrow> size_t \<Rightarrow> size_t \<Rightarrow> error + Film" where
  "Film_ctor alloc width height =
     (let size = width * height in
      if alloc (unat size)
      then Inr \<lparr>mWidth = width, mHeight = height, mSize = size,
                mPixels = replicate (unat size) RGBA_default\<rparr>
      else Inl BadAlloc)"

text \<open>
  \<^verbatim>\<open>pixel(w, h)\<close>: \<^verbatim>\<open>assert(w < mWidth); assert(h < mHeight); return mPixels[w + h*mWidth]\<close>.
  The accessor returns a reference; \<open>pixel\<close> reads through it and \<open>pixel_assign\<close>
  writes through it.
\<close>

definition pixel :: "Film \<Rightarrow> size_t \<Rightarrow> size_t \<Rightarrow> RGBA option" where
  "pixel F w h =
     (if w < mWidth F \<and> h < mHeight F then array_get (mPixels F) (unat (w + h * mWidth F))
      else None)"

definition pixel_assign :: "Film \<Rightarrow> size_t \<Rightarrow> size_t \<Rightarrow> RGBA \<Rightarrow> Film option" where
  "pixel_assign F w h c =
     (if w < mWidth F \<and> h < mHeight F \<and> unat (w + h * mWidth F) < length (mPixels F)
      then Some (F\<lparr>mPixels := (mPixels F)[unat (w + h * mWidth F) := c]\<rparr>)
      else None)"

text \<open>\<^verbatim>\<open>fill(rgb)\<close>: \<^verbatim>\<open>for (size_t i=0; i<mSize; ++i) mPixels[i] = rgb\<close>\<close>

definition fill_step :: "RGBA \<Rightarrow> size_t \<Rightarrow> RGBA list \<Rightarrow> RGBA list option" where
  "fill_step rgb i px = (if unat i < length px then Some (px[unat i := rgb]) else None)"

definition fill :: "Film \<Rightarrow> RGBA \<Rightarrow> Film option" where
  "fill F rgb =
     map_option (\<lambda>px. F\<lparr>mPixels := px\<rparr>) (for_loop 0 (mSize F) (fill_step rgb) (mPixels F))"

text \<open>\<^verbatim>\<open>Film(size_t width, size_t height, const RGBA& bg)\<close>: the same initialisers, then
  \<^verbatim>\<open>this->fill(bg)\<close>.\<close>

definition Film_ctor_bg :: "(nat \<Rightarrow> bool) \<Rightarrow> size_t \<Rightarrow> size_t \<Rightarrow> RGBA \<Rightarrow> error + Film" where
  "Film_ctor_bg alloc width height bg =
     (case Film_ctor alloc width height of
        Inl e \<Rightarrow> Inl e
      | Inr F \<Rightarrow> (case fill F bg of None \<Rightarrow> Inl Undefined | Some F' \<Rightarrow> Inr F'))"

text \<open>
  \<^verbatim>\<open>checkerboard(c1, c2, size)\<close>: the pointer \<^verbatim>\<open>p\<close> starts at \<^verbatim>\<open>mPixels\<close> and moves
  on by one with every column of every row; the state of the loops is the pixel array
  and the offset of \<^verbatim>\<open>p\<close>.
  \<^verbatim>\<open>*p = ((i & size) ^ (j & size)) ? c1 : c2\<close>. The parameter \<^verbatim>\<open>size\<close> is
  \<open>tile\<close> here.
\<close>

definition checkerboard_column ::
  "RGBA \<Rightarrow> RGBA \<Rightarrow> size_t \<Rightarrow> size_t \<Rightarrow> size_t \<Rightarrow> RGBA list \<times> nat \<Rightarrow> (RGBA list \<times> nat) option" where
  "checkerboard_column c1 c2 tile j i = (\<lambda>(px, p).
     if p < length px
     then Some (px[p := (if (i AND tile) XOR (j AND tile) \<noteq> 0 then c1 else c2)], p + 1)
     else None)"

definition checkerboard_row ::
  "RGBA \<Rightarrow> RGBA \<Rightarrow> size_t \<Rightarrow> size_t \<Rightarrow> size_t \<Rightarrow> RGBA list \<times> nat \<Rightarrow> (RGBA list \<times> nat) option" where
  "checkerboard_row c1 c2 tile width j = for_loop 0 width (checkerboard_column c1 c2 tile j)"

definition checkerboard :: "Film \<Rightarrow> RGBA \<Rightarrow> RGBA \<Rightarrow> size_t \<Rightarrow> Film option" where
  "checkerboard F c1 c2 tile =
     map_option (\<lambda>(px, p). F\<lparr>mPixels := px\<rparr>)
       (for_loop 0 (mHeight F) (checkerboard_row c1 c2 tile (mWidth F)) (mPixels F, 0))"

text \<open>
  \<^verbatim>\<open>static_cast<unsigned char>(x)\<close> of a floating-point \<^verbatim>\<open>x\<close> drops the fraction;
  when the truncated value is not one of 0..255 the behaviour is undefined.
\<close>

definition to_uchar :: "real \<Rightarrow> 8 word option" where
  "to_uchar x =
     (let t = (if 0 \<le> x then \<lfloor>x\<rfloor> else \<lceil>x\<rceil>) in
      if 0 \<le> t \<and> t \<le> 255 then Some (word_of_int t) else None)"

text \<open>
  The conversion loop of \<^verbatim>\<open>savePPM\<close>: \<^verbatim>\<open>while (n--)\<close> with \<^verbatim>\<open>p\<close> walking the
  pixels (here the pixels from \<^verbatim>\<open>p\<close> on) and \<^verbatim>\<open>q\<close> walking \<^verbatim>\<open>tmp\<close> (here the
  bytes stored so far).
\<close>

function savePPM_loop :: "size_t \<Rightarrow> RGBA list \<Rightarrow> 8 word list \<Rightarrow> 8 word list option" where
  "savePPM_loop n ps q =
     (if n \<noteq> 0 then
        (case ps of
           [] \<Rightarrow> None
         | px # rest \<Rightarrow>
             (case (to_uchar (255 * rC px), to_uchar (255 * gC px), to_uchar (255 * bC px)) of
                (Some r', Some g', Some b') \<Rightarrow> savePPM_loop (n - 1) rest (q @ [r', g', b'])
              | _ \<Rightarrow> None))
      else Some q)"
  by pat_completeness auto
termination
  by (relation "measure (\<lambda>(n, ps, q). unat n)") (auto simp: unat_minus_one unat_gt_0)

declare savePPM_loop.simps [simp del]

text \<open>
  Modelled from the spec: \<^verbatim>\<open>operator<<\<close> of the C++ stream library on a
  \<^verbatim>\<open>size_t\<close>, which the spec's header \<^verbatim>\<open>P6\n<width> <height>\n255\n\<close> shows to print
  the decimal digits, most significant first and with no padding.
\<close>

fun decimal :: "nat \<Rightarrow> string" where
  "decimal n =
     (if n < 10 then [''0123456789'' ! n]
      else decimal (n div 10) @ [''0123456789'' ! (n mod 10)])"

declare decimal.simps [simp del]

text \<open>
  \<^verbatim>\<open>savePPM(fileName)\<close>. \<open>opens\<close> says whether the stream could be opened; if not,
  a message goes to \<^verbatim>\<open>std::cerr\<close> and nothing is written. The result is the content
  of the file \<^verbatim>\<open>fileName + ".ppm"\<close>: the header, then \<^verbatim>\<open>3*mSize\<close> bytes of \<^verbatim>\<open>tmp\<close>.
  The conversion loop runs before the stream is opened. The allocation of \<^verbatim>\<open>tmp\<close> is
  taken to succeed.
\<close>

definition savePPM :: "Film \<Rightarrow> bool \<Rightarrow> error + 8 word list" where
  "savePPM F opens =
     (case savePPM_loop (mSize F) (mPixels F) [] of
        None \<Rightarrow> Inl Undefined
      | Some tmp \<Rightarrow>
          if \<not> opens then Inl OpenFailed
          else Inr (map of_char
                      (''P6'' @ [CHR 0x0A] @ decimal (unat (mWidth F)) @ '' ''
                       @ decimal (unat (mHeight F)) @ [CHR 0x0A] @ ''255'' @ [CHR 0x0A])
                    @ tmp))"

section \<open>Cameras\<close>

text \<open>
  \<^verbatim>\<open>BaseCamera::getRay\<close> is pure virtual: for the tracer a camera is the function
  from the pixel indices and the two offsets to the ray. The film the camera points to
  is passed as the state of the operations that write pixels.
\<close>

type_synonym BaseCamera = "size_t \<Rightarrow> size_t \<Rightarrow> real \<Rightarrow> real \<Rightarrow> Ray"

text \<open>
  Modelled from the spec: \<^verbatim>\<open>math::AffineMap\<close> is not among the sources. The
  screen-to-world map is taken as its two applications, to a point and to a direction.
\<close>

record AffineMap =
  applyMap :: "Vec3R \<Rightarrow> Vec3R"
  applyJacobian :: "Vec3R \<Rightarrow> Vec3R"

record CameraState =
  mFilmWidth :: size_t
  mFilmHeight :: size_t
  mScaleWidth :: real
  mScaleHeight :: real
  mRay :: Ray
  mScreenToWorld :: AffineMap

text \<open>
  The constructor of \<^verbatim>\<open>BaseCamera\<close>, with the map that the rotations and the
  translation accumulate given as \<open>xform\<close>. The camera reads only the width and the
  height of its film. \<^verbatim>\<open>assert(nearPlane > 0 && farPlane > nearPlane)\<close>. The height
  scale divides by the width of the film, and \<open>rasterToScreen\<close> by both dimensions: the
  films of the cameras below have positive dimensions, a division by zero being outside
  real arithmetic.
\<close>

definition BaseCamera_ctor ::
  "Film \<Rightarrow> AffineMap \<Rightarrow> real \<Rightarrow> real \<Rightarrow> real \<Rightarrow> CameraState option" where
  "BaseCamera_ctor film xform frameWidth nearPlane farPlane =
     (if nearPlane > 0 \<and> farPlane > nearPlane
      then Some \<lparr>mFilmWidth = mWidth film, mFilmHeight = mHeight film,
                 mScaleWidth = frameWidth,
                 mScaleHeight = frameWidth * real (unat (mHeight film)) / real (unat (mWidth film)),
                 mRay = \<lparr>eye = applyMap xform (Vec3R 0 0 0),
                         dir = applyJacobian xform (Vec3R 0 0 (- 1)),
                         t0 = nearPlane, t1 = farPlane\<rparr>,
                 mScreenToWorld = xform\<rparr>
      else None)"

definition rasterToScreen :: "CameraState \<Rightarrow> real \<Rightarrow> real \<Rightarrow> real \<Rightarrow> Vec3R" where
  "rasterToScreen cam i j z =
     Vec3R ((2 * i / real (unat (mFilmWidth cam)) - 1) * mScaleWidth cam)
           ((1 - 2 * j / real (unat (mFilmHeight cam))) * mScaleHeight cam) z"

text \<open>\<^verbatim>\<open>OrthographicCamera\<close>: the base constructor with \<^verbatim>\<open>0.5*frameWidth\<close>, and
  \<^verbatim>\<open>getRay\<close>, which moves the eye of the base ray.\<close>

definition OrthographicCamera_ctor ::
  "Film \<Rightarrow> AffineMap \<Rightarrow> real \<Rightarrow> real \<Rightarrow> real \<Rightarrow> CameraState option" where
  "OrthographicCamera_ctor film xform frameWidth nearPlane farPlane =
     BaseCamera_ctor film xform (0.5 * frameWidth) nearPlane farPlane"

definition OrthographicCamera_getRay :: "CameraState \<Rightarrow> BaseCamera" where
  "OrthographicCamera_getRay cam = (\<lambda>i j iOffset jOffset.
     setEye (mRay cam)
       (applyMap (mScreenToWorld cam)
          (rasterToScreen cam (real (unat i) + iOffset) (real (unat j) + jOffset) 0)))"

section \<open>LevelSetRayTracer\<close>

text \<open>
  \<^verbatim>\<open>mInter\<close> is the template parameter \<^verbatim>\<open>IntersectorT\<close>, used through
  \<^verbatim>\<open>intersectsWS(ray, xyz, nml)\<close> only: a function from the ray to the hit point and
  the normal, or to no hit. \<^verbatim>\<open>mRand\<close> is \<^verbatim>\<open>NULL\<close> or the array of offsets.
\<close>

record LevelSetRayTracer =
  mIsMaster :: bool
  mRand :: "real list option"
  mInter :: "Ray \<Rightarrow> (Vec3R \<times> Vec3R) option"
  mShader :: BaseShader
  mCamera :: BaseCamera
  mSubPixels :: size_t

text \<open>
  \<^verbatim>\<open>setPixelSamples(pixelSamples, seed)\<close>. The two assertions come first. The
  generator \<^verbatim>\<open>math::Rand01<double>\<close> is not among the sources: \<open>rand01 seed k\<close> is
  the value of its call number \<open>k\<close> after seeding with \<open>seed\<close>.
\<close>

definition setPixelSamples ::
  "(32 word \<Rightarrow> nat \<Rightarrow> real) \<Rightarrow> LevelSetRayTracer \<Rightarrow> size_t \<Rightarrow> 32 word \<Rightarrow> LevelSetRayTracer option" where
  "setPixelSamples rand01 T pixelSamples seed =
     (if \<not> mIsMaster T \<or> \<not> pixelSamples > 0 then None
      else let sub = pixelSamples - 1 in
        Some (T\<lparr>mSubPixels := sub,
                mRand := (if sub > 0 then Some (map (rand01 seed) [0..<16]) else None)\<rparr>))"

text \<open>The constructor from an intersector, and the copy constructor.\<close>

definition LevelSetRayTracer_ctor ::
  "(32 word \<Rightarrow> nat \<Rightarrow> real) \<Rightarrow> (Ray \<Rightarrow> (Vec3R \<times> Vec3R) option) \<Rightarrow> BaseShader \<Rightarrow> BaseCamera
     \<Rightarrow> size_t \<Rightarrow> 32 word \<Rightarrow> LevelSetRayTracer option" where
  "LevelSetRayTracer_ctor rand01 intersector shader camera pixelSamples seed =
     setPixelSamples rand01
       \<lparr>mIsMaster = True, mRand = None, mInter = intersector, mShader = shader, mCamera = camera,
        mSubPixels = 0\<rparr>
       pixelSamples seed"

definition LevelSetRayTracer_copy :: "LevelSetRayTracer \<Rightarrow> LevelSetRayTracer" where
  "LevelSetRayTracer_copy other = other\<lparr>mIsMaster := False\<rparr>"

text \<open>
  \<^verbatim>\<open>mInter.intersectsWS(ray, xyz, nml) ? (*mShader)(xyz, nml, ray) : bg\<close>, the
  expression that both the primary ray and every jittered ray go through.
\<close>

definition shade_or_bg :: "LevelSetRayTracer \<Rightarrow> RGBA \<Rightarrow> Ray \<Rightarrow> RGBA" where
  "shade_or_bg T bg ray =
     (case mInter T ray of Some (xyz, nml) \<Rightarrow> mShader T xyz nml ray | None \<Rightarrow> bg)"

text \<open>
  The body of \<^verbatim>\<open>operator()\<close>, loop by loop. The innermost loop carries the colour
  \<^verbatim>\<open>c\<close> and the counter \<^verbatim>\<open>n\<close>; the two outer loops carry the film and \<^verbatim>\<open>n\<close>.
  \<^verbatim>\<open>n+1 & 15\<close> is \<^verbatim>\<open>(n+1) & 15\<close>.
\<close>

definition subpixel_step ::
  "LevelSetRayTracer \<Rightarrow> RGBA \<Rightarrow> size_t \<Rightarrow> size_t \<Rightarrow> size_t \<Rightarrow> RGBA \<times> size_t \<Rightarrow> (RGBA \<times> size_t) option" where
  "subpixel_step T bg i j k = (\<lambda>(c, n).
     case mRand T of
       None \<Rightarrow> None
     | Some tbl \<Rightarrow>
         (case (array_get tbl (unat (n AND 15)), array_get tbl (unat ((n + 1) AND 15))) of
            (Some iOffset, Some jOffset) \<Rightarrow>
              Some (RGBA_add_assign c (shade_or_bg T bg (mCamera T i j iOffset jOffset)), n + 2)
          | _ \<Rightarrow> None))"

definition pixel_step ::
  "LevelSetRayTracer \<Rightarrow> size_t \<Rightarrow> size_t \<Rightarrow> Film \<times> size_t \<Rightarrow> (Film \<times> size_t) option" where
  "pixel_step T j i = (\<lambda>(F, n).
     case pixel F i j of
       None \<Rightarrow> None
     | Some bg \<Rightarrow>
         (case for_loop 0 (mSubPixels T) (subpixel_step T bg i j)
                 (shade_or_bg T bg (mCamera T i j 0.5 0.5), n) of
            None \<Rightarrow> None
          | Some (c, n') \<Rightarrow>
              map_option (\<lambda>F'. (F', n'))
                (pixel_assign F i j (RGBA_scale c (1 / (1 + real (unat (mSubPixels T))))))))"

definition row_step ::
  "LevelSetRayTracer \<Rightarrow> size_t \<Rightarrow> Film \<times> size_t \<Rightarrow> (Film \<times> size_t) option" where
  "row_step T j = (\<lambda>(F, n). for_loop 0 (mWidth F) (pixel_step T j) (F, n))"

definition operator_call :: "LevelSetRayTracer \<Rightarrow> size_t \<times> size_t \<Rightarrow> Film \<Rightarrow> Film option" where
  "operator_call T = (\<lambda>(begin, end) F.
     map_option fst (for_loop begin end (row_step T) (F, 0)))"

text \<open>
  Modelled from the spec: \<^verbatim>\<open>tbb::parallel_for\<close> and \<^verbatim>\<open>tbb::blocked_range\<close> are
  not among the sources. The spec describes a fork-join over row ranges in which every
  dispatched unit works on a copy of the tracer and writes rows of its own. A range
  \<^verbatim>\<open>[begin, end)\<close> with more than one row can be split at
  \<^verbatim>\<open>begin + (end - begin)/2\<close>; whether it is, is the scheduler's choice, which
  the \<open>schedule\<close> records. The body runs once on every range that is not split further,
  and not at all on an empty range. The units write disjoint rows and read no pixel
  but their own, so running them one after the other, left to right, gives the film
  that any interleaving gives.
\<close>

datatype schedule = Run | Split schedule schedule

fun parallel_for ::
  "schedule \<Rightarrow> size_t \<times> size_t \<Rightarrow> (size_t \<times> size_t \<Rightarrow> 's \<Rightarrow> 's option) \<Rightarrow> 's \<Rightarrow> 's option" where
  "parallel_for Run (b, e) body s = (if b < e then body (b, e) s else Some s)"
| "parallel_for (Split l r) (b, e) body s =
     (if b < e \<and> 1 < e - b
      then (case parallel_for l (b, b + (e - b) div 2) body s of
              None \<Rightarrow> None
            | Some s' \<Rightarrow> parallel_for r (b + (e - b) div 2, e) body s')
      else parallel_for Run (b, e) body s)"

text \<open>
  \<^verbatim>\<open>trace(threaded)\<close>:
  \<^verbatim>\<open>threaded ? tbb::parallel_for(range, *this) : (*this)(range)\<close> over the rows
  \<^verbatim>\<open>[0, mCamera->height())\<close>. The parallel units are copies of the tracer.
\<close>

definition trace :: "LevelSetRayTracer \<Rightarrow> bool \<Rightarrow> schedule \<Rightarrow> Film \<Rightarrow> Film option" where
  "trace T threaded sched F =
     (if threaded
      then parallel_for sched (0, mHeight F) (operator_call (LevelSetRayTracer_copy T)) F
      else operator_call T (0, mHeight F) F)"

section \<open>Auxiliary notions of the specification\<close>

text \<open>The ranges on which \<open>parallel_for\<close> runs its body, in order.\<close>

fun dispatched :: "schedule \<Rightarrow> size_t \<times> size_t \<Rightarrow> (size_t \<times> size_t) list" where
  "dispatched Run (b, e) = (if b < e then [(b, e)] else [])"
| "dispatched (Split l r) (b, e) =
     (if b < e \<and> 1 < e - b
      then dispatched l (b, b + (e - b) div 2) @ dispatched r (b + (e - b) div 2, e)
      else dispatched Run (b, e))"

text \<open>Two loop states that differ at most in the counter \<^verbatim>\<open>n\<close>, and there only by a
  multiple of 16, so that \<^verbatim>\<open>n & 15\<close> is the same.\<close>

definition same_jitter :: "'a \<times> size_t \<Rightarrow> 'a \<times> size_t \<Rightarrow> bool" where
  "same_jitter = (\<lambda>(x, n) (y, n'). x = y \<and> n AND 15 = n' AND 15)"

text \<open>Two films of the same dimensions.\<close>

definition same_frame :: "Film \<Rightarrow> Film \<Rightarrow> bool" where
  "same_frame F F' \<longleftrightarrow> mWidth F' = mWidth F \<and> mHeight F' = mHeight F \<and> mSize F' = mSize F
                      \<and> length (mPixels F') = length (mPixels F)"

section \<open>Well-formed films and tracers\<close>

text \<open>
  The film that the constructor builds when \<^verbatim>\<open>width*height\<close> does not wrap: the array
  has one pixel for every column of every row.
\<close>

definition Film_valid :: "Film \<Rightarrow> bool" where
  "Film_valid F \<longleftrightarrow> unat (mWidth F) * unat (mHeight F) < 2 ^ 64
                   \<and> mSize F = mWidth F * mHeight F
                   \<and> length (mPixels F) = unat (mSize F)"

text \<open>
  The state \<^verbatim>\<open>setPixelSamples\<close> leaves behind: with more than one sample per pixel the
  table of sixteen offsets is there.
\<close>

definition tracer_valid :: "LevelSetRayTracer \<Rightarrow> bool" where
  "tracer_valid T \<longleftrightarrow> (0 < mSubPixels T \<longrightarrow> (\<exists>tbl. mRand T = Some tbl \<and> length tbl = 16))"

section \<open>What the specification says, in its own terms\<close>

text \<open>The checkerboard colour of a pixel: \<open>(col & tileSize) xor (row & tileSize)\<close>
  decides between the two colours.\<close>

definition tile_colour :: "RGBA \<Rightarrow> RGBA \<Rightarrow> size_t \<Rightarrow> size_t \<Rightarrow> size_t \<Rightarrow> RGBA" where
  "tile_colour c1 c2 tile col row = (if (col AND tile) XOR (row AND tile) \<noteq> 0 then c1 else c2)"

text \<open>The byte of a channel value \<open>v\<close> according to the specification:
  \<open>floor(255 \<cdot> v)\<close> clamped to 0..255.\<close>

definition clamp_byte :: "real \<Rightarrow> 8 word" where
  "clamp_byte v = word_of_int (max 0 (min 255 \<lfloor>255 * v\<rfloor>))"

text \<open>The three bytes of a pixel, R, G, B; the alpha channel is dropped.\<close>

definition ppm_triple :: "RGBA \<Rightarrow> 8 word list" where
  "ppm_triple p = [clamp_byte (rC p), clamp_byte (gC p), clamp_byte (bC p)]"

text \<open>The header \<^verbatim>\<open>P6\n<width> <height>\n255\n\<close>.\<close>

definition ppm_header :: "size_t \<Rightarrow> size_t \<Rightarrow> 8 word list" where
  "ppm_header width height =
     map of_char (''P6'' @ [CHR 0x0A] @ decimal (unat width) @ '' '' @ decimal (unat height)
                  @ [CHR 0x0A] @ ''255'' @ [CHR 0x0A])"

text \<open>The channel values whose product with 255 truncates to one of 0..255, that is,
  the values on which \<^verbatim>\<open>static_cast<unsigned char>\<close> is defined.\<close>

definition convertible :: "real \<Rightarrow> bool" where
  "convertible v \<longleftrightarrow> - 1 < 255 * v \<and> 255 * v < 256"

text \<open>
  The jittered rays of pixel \<open>(i, j)\<close> when the counter \<^verbatim>\<open>n\<close> stands at \<open>n\<close> on
  entry to the pixel: ray number \<open>k\<close> takes the offsets at \<open>n + 2k\<close> and \<open>n + 2k + 1\<close>
  of the table, round-robin modulo 16.
\<close>

definition jitter_rays :: "LevelSetRayTracer \<Rightarrow> size_t \<Rightarrow> size_t \<Rightarrow> size_t \<Rightarrow> Ray list" where
  "jitter_rays T i j n =
     (case mRand T of
        None \<Rightarrow> []
      | Some tbl \<Rightarrow>
          map (\<lambda>k. mCamera T i j (tbl ! unat ((n + 2 * of_nat k) AND 15))
                                  (tbl ! unat ((n + 2 * of_nat k + 1) AND 15)))
              [0..<unat (mSubPixels T)])"

text \<open>All rays of a pixel: the primary ray through the pixel centre, then the jittered
  ones.\<close>

definition pixel_rays :: "LevelSetRayTracer \<Rightarrow> size_t \<Rightarrow> size_t \<Rightarrow> size_t \<Rightarrow> Ray list" where
  "pixel_rays T i j n = mCamera T i j (1/2) (1/2) # jitter_rays T i j n"

text \<open>The equal-weight average of a list of colours, channel by channel: every sample
  has the weight \<open>1 / length\<close>.\<close>

definition average :: "RGBA list \<Rightarrow> RGBA" where
  "average cs =
     \<lparr>rC = sum_list (map rC cs) / real (length cs),
      gC = sum_list (map gC cs) / real (length cs),
      bC = sum_list (map bC cs) / real (length cs),
      aC = sum_list (map aC cs) / real (length cs)\<rparr>"

text \<open>The colour the tracer stores: the average of the samples, with the alpha set
  to 1.\<close>

definition traced_pixel :: "LevelSetRayTracer \<Rightarrow> RGBA \<Rightarrow> size_t \<Rightarrow> size_t \<Rightarrow> size_t \<Rightarrow> RGBA" where
  "traced_pixel T bg i j n = (average (map (shade_or_bg T bg) (pixel_rays T i j n)))\<lparr>aC := 1\<rparr>"

text \<open>A colour after \<^verbatim>\<open>+=\<close> of a list of colours.\<close>

definition accumulate :: "RGBA \<Rightarrow> RGBA list \<Rightarrow> RGBA" where
  "accumulate c cs =
     \<lparr>rC = rC c + sum_list (map rC cs), gC = gC c + sum_list (map gC cs),
      bC = bC c + sum_list (map bC cs), aC = aC c + sum_list (map aC cs)\<rparr>"

text \<open>
  Two films of the same dimensions, the second well-formed, in which the pixels of the
  rows \<open>[b, e)\<close> of the second film have alpha 1 and all other pixels are those of
  the first film.
\<close>

definition opaque_rows :: "size_t \<Rightarrow> size_t \<Rightarrow> Film \<Rightarrow> Film \<Rightarrow> bool" where
  "opaque_rows b e F F' \<longleftrightarrow>
     Film_valid F' \<and> same_frame F F'
     \<and> (\<forall>i j. i < mWidth F \<and> j < mHeight F \<longrightarrow>
           (if b \<le> j \<and> j < e then (\<exists>p. pixel F' i j = Some p \<and> aC p = 1)
            else pixel F' i j = pixel F i j))"

section \<open>A small scene\<close>

text \<open>
  A film of one column and two rows, an orthographic camera of frame width 1 with no
  rotation and no translation, a level set that a ray hits when its eye lies right of
  the plane \<open>x = -2/5\<close>, a white matte shader, and a generator whose sixteen values are
  \<open>0, 1/16, \<dots>, 15/16\<close>.
\<close>

definition example_film :: Film where
  "example_film = \<lparr>mWidth = 1, mHeight = 2, mSize = 2, mPixels = [RGBA_default, RGBA_default]\<rparr>"

definition identity_map :: AffineMap where
  "identity_map = \<lparr>applyMap = (\<lambda>v. v), applyJacobian = (\<lambda>v. v)\<rparr>"

definition example_camera :: CameraState where
  "example_camera =
     \<lparr>mFilmWidth = 1, mFilmHeight = 2, mScaleWidth = 1/2, mScaleHeight = 1,
      mRay = \<lparr>eye = Vec3R 0 0 0, dir = Vec3R 0 0 (- 1), t0 = 1/1000, t1 = 1000\<rparr>,
      mScreenToWorld = identity_map\<rparr>"

definition half_space :: "Ray \<Rightarrow> (Vec3R \<times> Vec3R) option" where
  "half_space ray = (if - 2/5 < vx (eye ray) then Some (eye ray, Vec3R 0 0 1) else None)"

definition example_rand01 :: "32 word \<Rightarrow> nat \<Rightarrow> real" where
  "example_rand01 seed k = real k / 16"

definition example_tracer :: LevelSetRayTracer where
  "example_tracer =
     \<lparr>mIsMaster = True,
      mRand = Some [0, 1/16, 2/16, 3/16, 4/16, 5/16, 6/16, 7/16,
                    8/16, 9/16, 10/16, 11/16, 12/16, 13/16, 14/16, 15/16],
      mInter = half_space,
      mShader = MatteShader (RGBA_intensity 1),
      mCamera = OrthographicCamera_getRay example_camera,
      mSubPixels = 1\<rparr>"

section \<open>Further films and tracers\<close>

text \<open>A film of 33 columns and 32 rows, as the constructor builds it.\<close>

definition example_board :: Film where
  "example_board = \<lparr>mWidth = 33, mHeight = 32, mSize = 1056, mPixels = replicate 1056 RGBA_default\<rparr>"

text \<open>The film of two columns and one row with the pixels RGBA(1,0,0) and
  RGBA(0,1,0).\<close>

definition example_ppm_film :: Film where
  "example_ppm_film =
     \<lparr>mWidth = 2, mHeight = 1, mSize = 2,
      mPixels = [\<lparr>rC = 1, gC = 0, bC = 0, aC = 1\<rparr>, \<lparr>rC = 0, gC = 1, bC = 0, aC = 1\<rparr>]\<rparr>"

text \<open>A film of one pixel whose red channel is 2.\<close>

definition overexposed_film :: Film where
  "overexposed_film =
     \<lparr>mWidth = 1, mHeight = 1, mSize = 1, mPixels = [\<lparr>rC = 2, gC = 0, bC = 0, aC = 1\<rparr>]\<rparr>"

text \<open>The tracer of the small scene with a matte shader of alpha 1/2.\<close>

definition translucent_tracer :: LevelSetRayTracer where
  "translucent_tracer = example_tracer\<lparr>mShader := MatteShader \<lparr>rC = 1, gC = 1, bC = 1, aC = 1/2\<rparr>\<rparr>"

text \<open>The film of the small scene, filled with a background of alpha 1/4.\<close>

definition veiled_film :: Film where
  "veiled_film = example_film\<lparr>mPixels := [\<lparr>rC = 1/5, gC = 1/5, bC = 1/5, aC = 1/4\<rparr>,
                                         \<lparr>rC = 1/5, gC = 1/5, bC = 1/5, aC = 1/4\<rparr>]\<rparr>"

text \<open>A level set that no ray hits.\<close>

definition empty_level_set :: "Ray \<Rightarrow> (Vec3R \<times> Vec3R) option" where
  "empty_level_set ray = None"

text \<open>The tracer that the constructor builds over the empty level set with one sample
  per pixel.\<close>

definition single_sample_tracer :: LevelSetRayTracer where
  "single_sample_tracer =
     \<lparr>mIsMaster = True, mRand = None, mInter = empty_level_set,
      mShader = MatteShader (RGBA_intensity 1),
      mCamera = OrthographicCamera_getRay example_camera, mSubPixels = 0\<rparr>"

section \<open>Properties of the colour arithmetic and the shader\<close>

text \<open>
  C6. Compositing with \<open>over\<close> computes, with \<open>s = top.a \<cdot> (1 - bottom.a)\<close>, the channels
  \<open>bottom.a \<cdot> bottom.r + s \<cdot> top.r\<close> (likewise g and b) and the alpha \<open>bottom.a + s\<close>;
  when the bottom colour, the receiver, is fully opaque, the result is the bottom
  colour itself, whatever the top colour is.
\<close>

theorem over_opaque_bottom:
  "over bottom upper =
     \<lparr>rC = aC bottom * rC bottom + (aC upper * (1 - aC bottom)) * rC upper,
      gC = aC bottom * gC bottom + (aC upper * (1 - aC bottom)) * gC upper,
      bC = aC bottom * bC bottom + (aC upper * (1 - aC bottom)) * bC upper,
      aC = aC bottom + aC upper * (1 - aC bottom)\<rparr>
   \<and> (aC bottom = 1 \<longrightarrow> over bottom upper = bottom)"
  by (simp add: over_def Let_def)

theorem over_opaque_bottom_witness:
  "aC \<lparr>rC = 1/4, gC = 1/2, bC = 3/4, aC = 1\<rparr> = 1
   \<and> over \<lparr>rC = 1/4, gC = 1/2, bC = 3/4, aC = 1\<rparr> \<lparr>rC = 1, gC = 0, bC = 1, aC = 1/2\<rparr>
       = \<lparr>rC = 1/4, gC = 1/2, bC = 3/4, aC = 1\<rparr>"
  using over_opaque_bottom [of "\<lparr>rC = 1/4, gC = 1/2, bC = 3/4, aC = 1\<rparr>"
                               "\<lparr>rC = 1, gC = 0, bC = 1, aC = 1/2\<rparr>"]
  by simp

text \<open>
  C8. The diffuse shader returns the configured colour scaled by
  \<open>\<bar>normal \<cdot> rayDirection\<bar>\<close>, and it returns the same colour for a ray and for the
  ray with the opposite direction.
\<close>

theorem DiffuseShader_two_sided:
  "DiffuseShader c p n ray = RGBA_scale c \<bar>dot n (dir ray)\<bar>
   \<and> rC (DiffuseShader c p n ray) = rC c * \<bar>dot n (dir ray)\<bar>
   \<and> gC (DiffuseShader c p n ray) = gC c * \<bar>dot n (dir ray)\<bar>
   \<and> bC (DiffuseShader c p n ray) = bC c * \<bar>dot n (dir ray)\<bar>
   \<and> DiffuseShader c p n (setDir ray (neg (dir ray))) = DiffuseShader c p n ray"
proof -
  have "dot n (neg (dir ray)) = - dot n (dir ray)"
    by (simp add: dot_def neg_def)
  then show ?thesis
    by (simp add: DiffuseShader_def setDir_def RGBA_scale_def RGBA3_def)
qed

section \<open>The for loop\<close>

lemma unat_inc: "i < (ie::'a::len word) \<Longrightarrow> unat (i + 1) = Suc (unat i)"
proof -
  assume lt: "i < ie"
  have "unat i < unat ie" using lt by (simp add: word_less_nat_alt)
  moreover have "unat ie < 2 ^ LENGTH('a)" by (rule unsigned_less)
  ultimately have "unat i + 1 < 2 ^ LENGTH('a)" by linarith
  then show ?thesis by (simp add: unat_word_ariths)
qed

lemma inc_mono: "b \<le> i \<Longrightarrow> i < (e::'a::len word) \<Longrightarrow> b \<le> i + 1"
  by (simp add: word_le_nat_alt unat_inc)

lemma for_loop_done: "\<not> i < ie \<Longrightarrow> for_loop i ie body s = Some s"
  by (simp add: for_loop.simps)

lemma for_loop_step:
  "i < ie \<Longrightarrow> for_loop i ie body s =
     (case body i s of None \<Rightarrow> None | Some s' \<Rightarrow> for_loop (i + 1) ie body s')"
  by (subst for_loop.simps) simp

lemma for_loop_total:
  assumes "b \<le> e" and "P b s"
    and step: "\<And>i s. b \<le> i \<Longrightarrow> i < e \<Longrightarrow> P i s \<Longrightarrow> \<exists>s'. body i s = Some s' \<and> P (i + 1) s'"
  shows "\<exists>s'. for_loop b e body s = Some s' \<and> P e s'"
proof -
  have "b \<le> i \<Longrightarrow> i \<le> e \<Longrightarrow> P i s \<Longrightarrow> unat e - unat i = k
        \<Longrightarrow> \<exists>s'. for_loop i e body s = Some s' \<and> P e s'" for i k
  proof (induction k arbitrary: i s)
    case 0
    then have "i = e" by (simp add: word_le_nat_alt word_unat_eq_iff)
    then show ?case using "0.prems"(3) by (simp add: for_loop_done)
  next
    case (Suc k)
    then have lt: "i < e" by (simp add: word_less_nat_alt)
    from step [OF Suc.prems(1) lt Suc.prems(3)]
    obtain s1 where s1: "body i s = Some s1" "P (i + 1) s1" by blast
    have "unat e - unat (i + 1) = k" using Suc.prems(4) lt by (simp add: unat_inc)
    from Suc.IH [OF inc_mono [OF Suc.prems(1) lt] inc_le [OF lt] s1(2) this]
    show ?case using s1(1) lt by (simp add: for_loop_step)
  qed
  then show ?thesis using assms(1,2) by simp
qed

lemma for_loop_inv:
  assumes "for_loop b e body s = Some s'" and "b \<le> e" and "P b s"
    and step: "\<And>i s s'. b \<le> i \<Longrightarrow> i < e \<Longrightarrow> P i s \<Longrightarrow> body i s = Some s' \<Longrightarrow> P (i + 1) s'"
  shows "P e s'"
proof -
  have "b \<le> i \<Longrightarrow> i \<le> e \<Longrightarrow> P i s \<Longrightarrow> unat e - unat i = k
        \<Longrightarrow> for_loop i e body s = Some s' \<Longrightarrow> P e s'" for i k
  proof (induction k arbitrary: i s)
    case 0
    then have "i = e" by (simp add: word_le_nat_alt word_unat_eq_iff)
    then show ?case using "0.prems"(3,5) by (simp add: for_loop_done)
  next
    case (Suc k)
    then have lt: "i < e" by (simp add: word_less_nat_alt)
    from Suc.prems(5) lt obtain s1 where s1: "body i s = Some s1"
      and rest: "for_loop (i + 1) e body s1 = Some s'"
      by (auto simp: for_loop_step split: option.splits)
    have "unat e - unat (i + 1) = k" using Suc.prems(4) lt by (simp add: unat_inc)
    from Suc.IH [OF inc_mono [OF Suc.prems(1) lt] inc_le [OF lt]
                    step [OF Suc.prems(1) lt Suc.prems(3) s1] this rest]
    show ?case .
  qed
  from this [of b, OF order_refl assms(2,3) refl assms(1)] show ?thesis .
qed

lemma for_loop_split:
  assumes "b \<le> m" and "m \<le> e"
  shows "for_loop b e body s =
         (case for_loop b m body s of None \<Rightarrow> None | Some s' \<Rightarrow> for_loop m e body s')"
proof -
  have "i \<le> m \<Longrightarrow> unat m - unat i = k \<Longrightarrow> for_loop i e body s =
         (case for_loop i m body s of None \<Rightarrow> None | Some s' \<Rightarrow> for_loop m e body s')" for i k
  proof (induction k arbitrary: i s)
    case 0
    then have "i = m" by (simp add: word_le_nat_alt word_unat_eq_iff)
    then show ?case by (simp add: for_loop_done)
  next
    case (Suc k)
    then have lt: "i < m" by (simp add: word_less_nat_alt)
    then have lte: "i < e" using assms(2) by simp
    have "unat m - unat (i + 1) = k" using Suc.prems(2) lt by (simp add: unat_inc)
    from Suc.IH [OF inc_le [OF lt] this]
    show ?case using lt lte by (simp add: for_loop_step split: option.splits)
  qed
  then show ?thesis using assms(1) by simp
qed

lemma for_loop_rel:
  assumes "R s t"
    and step: "\<And>i s t. b \<le> i \<Longrightarrow> i < e \<Longrightarrow> R s t \<Longrightarrow> rel_option R (body1 i s) (body2 i t)"
  shows "rel_option R (for_loop b e body1 s) (for_loop b e body2 t)"
proof -
  have "b \<le> i \<Longrightarrow> R s t \<Longrightarrow> unat e - unat i = k
        \<Longrightarrow> rel_option R (for_loop i e body1 s) (for_loop i e body2 t)" for i k
  proof (induction k arbitrary: i s t)
    case 0
    then have "\<not> i < e" by (simp add: word_less_nat_alt)
    then show ?case using "0.prems"(2) by (simp add: for_loop_done)
  next
    case (Suc k)
    then have lt: "i < e" by (simp add: word_less_nat_alt)
    have k: "unat e - unat (i + 1) = k" using Suc.prems(3) lt by (simp add: unat_inc)
    from step [OF Suc.prems(1) lt Suc.prems(2)]
    show ?case
    proof (cases rule: option.rel_cases)
      case None
      then show ?thesis using lt by (simp add: for_loop_step)
    next
      case (Some x y)
      from Suc.IH [OF inc_mono [OF Suc.prems(1) lt] Some(3) k]
      show ?thesis using lt Some by (simp add: for_loop_step)
    qed
  qed
  then show ?thesis using assms(1) by simp
qed

section \<open>The jitter counter of the tracer\<close>

text \<open>The body of the tracer reads the counter \<^verbatim>\<open>n\<close> only through \<^verbatim>\<open>n & 15\<close>.\<close>

lemma and15_add:
  assumes "n AND 15 = n' AND (15::size_t)"
  shows "(n + k) AND 15 = (n' + k) AND 15"
proof -
  have m: "(15::size_t) = mask 4" by (simp add: mask_eq_exp_minus_1)
  have "(n + k) AND mask 4 = ((n AND mask 4) + k) AND mask 4" by (simp only: mask_eqs(1))
  also have "\<dots> = ((n' AND mask 4) + k) AND mask 4" using assms by (simp only: m)
  also have "\<dots> = (n' + k) AND mask 4" by (simp only: mask_eqs(1))
  finally show ?thesis by (simp only: m)
qed

lemma subpixel_step_jitter:
  assumes "same_jitter s t"
  shows "rel_option same_jitter (subpixel_step T bg i j k s) (subpixel_step T bg i j k t)"
proof -
  obtain c n n' where st: "s = (c, n)" "t = (c, n')" and nn: "n AND 15 = n' AND 15"
    using assms by (cases s; cases t) (auto simp: same_jitter_def)
  note n1 = and15_add [OF nn, of 1] and n2 = and15_add [OF nn, of 2]
  show ?thesis
  proof (cases "mRand T")
    case None
    then show ?thesis by (simp add: st subpixel_step_def)
  next
    case (Some tbl)
    show ?thesis
      by (simp add: st subpixel_step_def Some nn n1 n2 same_jitter_def split: option.splits)
  qed
qed

lemma subpixel_loop_jitter:
  "same_jitter s t \<Longrightarrow>
   rel_option same_jitter (for_loop 0 m (subpixel_step T bg i j) s)
                          (for_loop 0 m (subpixel_step T bg i j) t)"
  by (rule for_loop_rel) (simp_all add: subpixel_step_jitter)

lemma pixel_step_jitter:
  assumes "same_jitter s t"
  shows "rel_option same_jitter (pixel_step T j i s) (pixel_step T j i t)"
proof -
  obtain F n n' where st: "s = (F, n)" "t = (F, n')" and nn: "n AND 15 = n' AND 15"
    using assms by (cases s; cases t) (auto simp: same_jitter_def)
  show ?thesis
  proof (cases "pixel F i j")
    case None
    then show ?thesis by (simp add: st pixel_step_def)
  next
    case (Some bg)
    have "same_jitter (shade_or_bg T bg (mCamera T i j 0.5 0.5), n)
                      (shade_or_bg T bg (mCamera T i j 0.5 0.5), n')"
      using nn by (simp add: same_jitter_def)
    from subpixel_loop_jitter [OF this, of "mSubPixels T" T bg i j]
    show ?thesis
    proof (cases rule: option.rel_cases)
      case None
      then show ?thesis by (simp add: st pixel_step_def Some)
    next
      case (Some x y)
      obtain c m m' where xy: "x = (c, m)" "y = (c, m')" and mm: "m AND 15 = m' AND 15"
        using Some(3) by (cases x; cases y) (auto simp: same_jitter_def)
      show ?thesis
        using Some(1,2) mm
        by (cases "pixel_assign F i j (RGBA_scale c (1 / (1 + real (unat (mSubPixels T)))))")
           (simp_all add: st pixel_step_def \<open>pixel F i j = Some bg\<close> xy same_jitter_def)
    qed
  qed
qed

lemma row_step_jitter:
  assumes "same_jitter s t"
  shows "rel_option same_jitter (row_step T j s) (row_step T j t)"
proof -
  obtain F n n' where st: "s = (F, n)" "t = (F, n')"
    using assms by (cases s; cases t) (auto simp: same_jitter_def)
  have "rel_option same_jitter (for_loop 0 (mWidth F) (pixel_step T j) s)
                               (for_loop 0 (mWidth F) (pixel_step T j) t)"
    using assms by (rule for_loop_rel) (rule pixel_step_jitter)
  then show ?thesis by (simp add: st row_step_def)
qed

lemma rows_jitter:
  assumes "same_jitter s t"
  shows "rel_option same_jitter (for_loop b e (row_step T) s) (for_loop b e (row_step T) t)"
  using assms by (rule for_loop_rel) (rule row_step_jitter)

lemma rows_jitter_fst:
  assumes "n AND 15 = n' AND 15"
  shows "map_option fst (for_loop b e (row_step T) (F, n))
         = map_option fst (for_loop b e (row_step T) (F, n'))"
proof -
  have "same_jitter (F, n) (F, n')" using assms by (simp add: same_jitter_def)
  from rows_jitter [OF this, of b e T] show ?thesis
    by (cases rule: option.rel_cases) (auto simp: same_jitter_def)
qed

text \<open>The counter moves on by two for every jittered sample, and the loops keep the
  dimensions of the film.\<close>

lemma same_frame_refl: "same_frame F F"
  by (simp add: same_frame_def)

lemma same_frame_trans: "same_frame F G \<Longrightarrow> same_frame G H \<Longrightarrow> same_frame F H"
  by (simp add: same_frame_def)

lemma pixel_assign_frame: "pixel_assign F i j c = Some F' \<Longrightarrow> same_frame F F'"
  by (auto simp: pixel_assign_def same_frame_def split: if_splits)

lemma subpixel_loop_counter:
  assumes "for_loop 0 m (subpixel_step T bg i j) (c, n) = Some (c', n')"
  shows "n' = n + 2 * m"
proof -
  have "snd (c', n') = n + 2 * m"
  proof (rule for_loop_inv [OF assms, where P = "\<lambda>k s. snd s = n + 2 * k"])
    fix k :: size_t and s s' :: "RGBA \<times> size_t"
    assume "snd s = n + 2 * k" and "subpixel_step T bg i j k s = Some s'"
    then show "snd s' = n + 2 * (k + 1)"
      by (cases s) (auto simp: subpixel_step_def algebra_simps split: option.splits)
  qed simp_all
  then show ?thesis by simp
qed

lemma pixel_step_counter:
  assumes "pixel_step T j i (F, n) = Some (F', n')"
  shows "n' = n + 2 * mSubPixels T \<and> same_frame F F'"
  using assms
  by (auto simp: pixel_step_def split: option.splits
           dest: subpixel_loop_counter pixel_assign_frame)

lemma row_step_counter:
  assumes "row_step T j (F, n) = Some (F', n')"
  shows "n' = n + 2 * mSubPixels T * mWidth F \<and> same_frame F F'"
proof -
  let ?P = "\<lambda>i s. snd s = n + 2 * mSubPixels T * i \<and> same_frame F (fst s)"
  have loop: "for_loop 0 (mWidth F) (pixel_step T j) (F, n) = Some (F', n')"
    using assms by (simp add: row_step_def)
  have "?P (mWidth F) (F', n')"
  proof (rule for_loop_inv [OF loop, where P = ?P])
    fix i :: size_t and s s' :: "Film \<times> size_t"
    assume P: "?P i s" and step: "pixel_step T j i s = Some s'"
    obtain G m G' m' where s: "s = (G, m)" "s' = (G', m')" by (cases s; cases s') auto
    from pixel_step_counter [OF step [unfolded s]] P
    show "?P (i + 1) s'"
      by (auto simp: s algebra_simps intro: same_frame_trans)
  qed (simp_all add: same_frame_refl)
  then show ?thesis by simp
qed

lemma rows_counter:
  assumes "for_loop b e (row_step T) (F, n) = Some (F', n')" and "b \<le> e"
  shows "n' = n + 2 * mSubPixels T * mWidth F * (e - b) \<and> same_frame F F'"
proof -
  let ?P = "\<lambda>j s. snd s = n + 2 * mSubPixels T * mWidth F * (j - b) \<and> same_frame F (fst s)"
  have "?P e (F', n')"
  proof (rule for_loop_inv [OF assms, where P = ?P])
    fix j :: size_t and s s' :: "Film \<times> size_t"
    assume P: "?P j s" and step: "row_step T j s = Some s'"
    obtain G m G' m' where s: "s = (G, m)" "s' = (G', m')" by (cases s; cases s') auto
    have w: "mWidth G = mWidth F" using P by (simp add: s same_frame_def)
    from row_step_counter [OF step [unfolded s]] P
    show "?P (j + 1) s'"
      by (auto simp: s w algebra_simps intro: same_frame_trans)
  qed (simp_all add: same_frame_refl)
  then show ?thesis by simp
qed

lemma and15_diff:
  assumes "x AND 15 = 0" and "y AND (15::size_t) = 0"
  shows "(y - x) AND 15 = 0"
proof -
  have m: "(15::size_t) = mask 4" by (simp add: mask_eq_exp_minus_1)
  have "(y - x) AND mask 4 = ((y AND mask 4) - (x AND mask 4)) AND mask 4"
    by (simp only: mask_eqs)
  then show ?thesis using assms by (simp add: m)
qed

lemma operator_call_split:
  assumes "b \<le> m" and "m \<le> e"
    and al: "(2 * mSubPixels T * mWidth F * (m - b)) AND 15 = 0"
  shows "operator_call T (b, e) F =
         (case operator_call T (b, m) F of None \<Rightarrow> None | Some F' \<Rightarrow> operator_call T (m, e) F')"
proof (cases "for_loop b m (row_step T) (F, 0)")
  case None
  then show ?thesis
    by (simp add: operator_call_def for_loop_split [OF assms(1,2)])
next
  case (Some s)
  obtain F1 n1 where s: "s = (F1, n1)" by (cases s)
  from rows_counter [OF Some [unfolded s] assms(1)] al
  have "n1 AND 15 = 0 AND 15" by simp
  from rows_jitter_fst [OF this]
  show ?thesis
    by (simp add: operator_call_def for_loop_split [OF assms(1,2)] Some s)
qed

section \<open>Parallel dispatch\<close>

lemma midpoint_bounds:
  assumes "b < e" and "1 < e - (b::size_t)"
  shows "b < b + (e - b) div 2" and "b + (e - b) div 2 < e"
proof -
  have be: "unat b < unat e" using assms(1) by (simp add: word_less_nat_alt)
  then have d: "unat (e - b) = unat e - unat b" by (simp add: unat_sub word_le_nat_alt)
  have one: "1 < unat e - unat b" using assms(2) d by (simp add: word_less_nat_alt)
  have h: "unat ((e - b) div 2) = (unat e - unat b) div 2" by (simp add: unat_div d)
  have "unat e < 2 ^ 64" using unsigned_less [of e] by simp
  then have "unat b + unat ((e - b) div 2) < 2 ^ 64"
    using h be by simp
  then have m: "unat (b + (e - b) div 2) = unat b + (unat e - unat b) div 2"
    using h by (simp add: unat_add_lem [THEN iffD1])
  show "b < b + (e - b) div 2" using m one by (simp add: word_less_nat_alt)
  show "b + (e - b) div 2 < e" using m one be by (simp add: word_less_nat_alt)
qed

lemma dispatched_first:
  "b < e \<Longrightarrow> \<exists>e' rest. dispatched sched (b, e) = (b, e') # rest"
proof (induction sched arbitrary: b e)
  case Run
  then show ?case by simp
next
  case (Split l r)
  show ?case
  proof (cases "1 < e - b")
    case True
    from Split.IH(1) [OF midpoint_bounds(1) [OF Split.prems True]]
    show ?thesis using Split.prems True by auto
  next
    case False
    then show ?thesis using Split.prems by simp
  qed
qed

lemma operator_call_empty: "\<not> b < e \<Longrightarrow> operator_call T (b, e) F = Some F"
  by (simp add: operator_call_def for_loop_done)

lemma operator_call_frame:
  assumes "operator_call T (b, e) F = Some F'" and "b \<le> e"
  shows "same_frame F F'"
proof -
  from assms(1) obtain n' where "for_loop b e (row_step T) (F, 0) = Some (F', n')"
    by (auto simp: operator_call_def)
  from rows_counter [OF this assms(2)] show ?thesis by simp
qed

lemma shade_or_bg_copy: "shade_or_bg (LevelSetRayTracer_copy T) = shade_or_bg T"
  by (intro ext)
     (simp add: shade_or_bg_def LevelSetRayTracer_copy_def cong: option.case_cong prod.case_cong)

lemma subpixel_step_copy: "subpixel_step (LevelSetRayTracer_copy T) = subpixel_step T"
proof -
  have "mRand (LevelSetRayTracer_copy T) = mRand T"
    and "mCamera (LevelSetRayTracer_copy T) = mCamera T"
    by (simp_all add: LevelSetRayTracer_copy_def)
  then show ?thesis
    by (intro ext)
       (simp add: subpixel_step_def shade_or_bg_copy cong: option.case_cong prod.case_cong)
qed

lemma pixel_step_copy: "pixel_step (LevelSetRayTracer_copy T) = pixel_step T"
proof -
  have "mSubPixels (LevelSetRayTracer_copy T) = mSubPixels T"
    and "mCamera (LevelSetRayTracer_copy T) = mCamera T"
    by (simp_all add: LevelSetRayTracer_copy_def)
  then show ?thesis
    by (intro ext)
       (simp add: pixel_step_def shade_or_bg_copy subpixel_step_copy
             cong: option.case_cong prod.case_cong)
qed

lemma row_step_copy: "row_step (LevelSetRayTracer_copy T) = row_step T"
  by (intro ext) (simp add: row_step_def pixel_step_copy)

lemma operator_call_copy: "operator_call (LevelSetRayTracer_copy T) = operator_call T"
  by (simp add: operator_call_def row_step_copy)

lemma parallel_for_aligned:
  assumes "\<forall>(b', e') \<in> set (dispatched sched (b, e)).
             (2 * mSubPixels T * mWidth F * b') AND 15 = 0"
  shows "parallel_for sched (b, e) (operator_call T) F = operator_call T (b, e) F"
  using assms
proof (induction sched arbitrary: b e F)
  case Run
  then show ?case by (simp add: operator_call_empty)
next
  case (Split l r)
  show ?case
  proof (cases "b < e \<and> 1 < e - b")
    case False
    then show ?thesis by (auto simp: operator_call_empty)
  next
    case True
    let ?m = "b + (e - b) div 2"
    let ?a = "\<lambda>x. (2 * mSubPixels T * mWidth F * x) AND 15 = 0"
    have bm: "b < ?m" and me: "?m < e" using midpoint_bounds True by simp_all
    have dl: "\<forall>(b', e') \<in> set (dispatched l (b, ?m)). ?a b'"
      and dr: "\<forall>(b', e') \<in> set (dispatched r (?m, e)). ?a b'"
      using Split.prems True by auto
    have ab: "?a b" using dispatched_first [OF bm, of l] dl by auto
    have am: "?a ?m" using dispatched_first [OF me, of r] dr by auto
    have "2 * mSubPixels T * mWidth F * (?m - b)
          = 2 * mSubPixels T * mWidth F * ?m - 2 * mSubPixels T * mWidth F * b"
      by (simp add: algebra_simps)
    then have al: "?a (?m - b)" using and15_diff [OF ab am] by simp
    have left: "parallel_for l (b, ?m) (operator_call T) F = operator_call T (b, ?m) F"
      by (rule Split.IH(1) [OF dl])
    have right: "parallel_for r (?m, e) (operator_call T) F' = operator_call T (?m, e) F'"
      if "operator_call T (b, ?m) F = Some F'" for F'
    proof -
      have "mWidth F' = mWidth F"
        using operator_call_frame [OF that] bm by (simp add: same_frame_def)
      then show ?thesis using Split.IH(2) [of ?m e F'] dr by simp
    qed
    have "parallel_for (Split l r) (b, e) (operator_call T) F
          = (case operator_call T (b, ?m) F of None \<Rightarrow> None
             | Some F' \<Rightarrow> operator_call T (?m, e) F')"
      using True left right by (simp split: option.splits)
    also have "\<dots> = operator_call T (b, e) F"
      using operator_call_split [of b ?m e T F] bm me al by simp
    finally show ?thesis .
  qed
qed

section \<open>The small scene, constructed and traced\<close>

lemma replicate2: "replicate 2 x = [x, x]"
  by (simp add: numeral_2_eq_2)

lemma example_film_constructed: "Film_ctor (\<lambda>n. True) 1 2 = Inr example_film"
  by (simp add: Film_ctor_def example_film_def replicate2)

lemma example_camera_constructed:
  "OrthographicCamera_ctor example_film identity_map 1 (1/1000) 1000 = Some example_camera"
  by (simp add: OrthographicCamera_ctor_def BaseCamera_ctor_def example_film_def
                example_camera_def identity_map_def)

lemma upt16: "[0..<16] = [0,1,2,3,4,5,6,7,8,9,10,11,12,13,14,15]"
  by (simp add: upt_rec)

lemma example_tracer_constructed:
  "LevelSetRayTracer_ctor example_rand01 half_space (MatteShader (RGBA_intensity 1))
     (OrthographicCamera_getRay example_camera) 2 0 = Some example_tracer"
  by (simp add: LevelSetRayTracer_ctor_def setPixelSamples_def example_tracer_def Let_def
                example_rand01_def upt16)

lemma example_trace_sequential: "trace example_tracer False (Split Run Run) example_film =
  Some (example_film\<lparr>mPixels := [\<lparr>rC = 1/2, gC = 1/2, bC = 1/2, aC = 1\<rparr>, \<lparr>rC = 1, gC = 1, bC = 1, aC = 1\<rparr>]\<rparr>)"
  by (simp add: trace_def operator_call_def row_step_def pixel_step_def subpixel_step_def
        for_loop.simps example_film_def example_tracer_def pixel_def pixel_assign_def array_get_def
        shade_or_bg_def half_space_def OrthographicCamera_getRay_def example_camera_def
        identity_map_def rasterToScreen_def setEye_def MatteShader_def RGBA_intensity_def
        RGBA_default_def RGBA_add_assign_def RGBA_scale_def RGBA3_def)

lemma example_trace_threaded: "trace example_tracer True (Split Run Run) example_film =
  Some (example_film\<lparr>mPixels := [\<lparr>rC = 1/2, gC = 1/2, bC = 1/2, aC = 1\<rparr>, \<lparr>rC = 1/2, gC = 1/2, bC = 1/2, aC = 1\<rparr>]\<rparr>)"
  by (simp add: trace_def operator_call_def row_step_def pixel_step_def subpixel_step_def
        LevelSetRayTracer_copy_def
        for_loop.simps example_film_def example_tracer_def pixel_def pixel_assign_def array_get_def
        shade_or_bg_def half_space_def OrthographicCamera_getRay_def example_camera_def
        identity_map_def rasterToScreen_def setEye_def MatteShader_def RGBA_intensity_def
        RGBA_default_def RGBA_add_assign_def RGBA_scale_def RGBA3_def)

section \<open>Threaded and unthreaded traces\<close>

text \<open>
  C1, as the code has it. A unit of the parallel run starts its jitter counter at 0 on
  the first row of its range, while the sequential run counts on from row to row:
  2 \<open>\<cdot>\<close> (pixelSamples - 1) \<open>\<cdot>\<close> width for every row. The threaded trace and the
  unthreaded trace give the same film, or fail alike, whenever every dispatched range
  begins at a row \<open>b\<close> for which 2 \<open>\<cdot>\<close> (pixelSamples - 1) \<open>\<cdot>\<close> width \<open>\<cdot>\<close> b is a
  multiple of 16; this holds for every schedule when \<open>pixelSamples = 1\<close> or when
  (pixelSamples - 1) \<open>\<cdot>\<close> width is a multiple of 8.
\<close>

theorem trace_threaded_aligned:
  assumes "\<forall>(b, e) \<in> set (dispatched sched (0, mHeight F)).
             (2 * mSubPixels T * mWidth F * b) AND 15 = 0"
  shows "trace T True sched F = trace T False sched F"
  using parallel_for_aligned [OF assms]
  by (simp add: trace_def operator_call_copy)

theorem trace_threaded_aligned_witness:
  "dispatched (Split Run Run) (0, mHeight example_film) = [(0, 1), (1, 2)]
   \<and> (2 * mSubPixels (example_tracer\<lparr>mSubPixels := 8\<rparr>) * mWidth example_film * 0) AND 15 = 0
   \<and> (2 * mSubPixels (example_tracer\<lparr>mSubPixels := 8\<rparr>) * mWidth example_film * 1) AND 15 = 0
   \<and> trace (example_tracer\<lparr>mSubPixels := 8\<rparr>) True (Split Run Run) example_film
       = trace (example_tracer\<lparr>mSubPixels := 8\<rparr>) False (Split Run Run) example_film"
proof -
  have d: "dispatched (Split Run Run) (0, mHeight example_film) = [(0, 1), (1, 2)]"
    by (simp add: example_film_def)
  have a: "(2 * mSubPixels (example_tracer\<lparr>mSubPixels := 8\<rparr>) * mWidth example_film * 0) AND 15 = 0"
    "(2 * mSubPixels (example_tracer\<lparr>mSubPixels := 8\<rparr>) * mWidth example_film * 1) AND 15 = 0"
    by (simp_all add: example_film_def)
  have h: "\<forall>(b, e) \<in> set (dispatched (Split Run Run) (0, mHeight example_film)).
      (2 * mSubPixels (example_tracer\<lparr>mSubPixels := 8\<rparr>) * mWidth example_film * b) AND 15 = 0"
    unfolding d using a by simp
  show ?thesis using d a trace_threaded_aligned [OF h] by blast
qed

text \<open>
  C1 as stated fails: in the small scene with two samples per pixel, the pixel of row 1
  is white when the rows are traced in one range, and half grey when the scheduler
  hands each row to a unit of its own.
\<close>

theorem trace_threaded_differs:
  "mSubPixels example_tracer + 1 = 2
   \<and> trace example_tracer True (Split Run Run) example_film
       \<noteq> trace example_tracer False (Split Run Run) example_film"
  unfolding example_trace_sequential example_trace_threaded
  by (simp add: example_film_def example_tracer_def)

section \<open>Pixels of a well-formed film\<close>

lemma Film_valid_length:
  "Film_valid F \<Longrightarrow> length (mPixels F) = unat (mWidth F) * unat (mHeight F)"
  by (simp add: Film_valid_def unat_mult_lem [THEN iffD1])

lemma pixel_index:
  assumes "Film_valid F" and "w < mWidth F" and "h < mHeight F"
  shows "unat (w + h * mWidth F) = unat w + unat h * unat (mWidth F)"
    and "unat w + unat h * unat (mWidth F) < length (mPixels F)"
proof -
  let ?W = "unat (mWidth F)" and ?H = "unat (mHeight F)"
  have w: "unat w < ?W" and h: "unat h < ?H" using assms(2,3) by (simp_all add: word_less_nat_alt)
  have "unat w + unat h * ?W < Suc (unat h) * ?W" using w by simp
  also have "\<dots> \<le> ?H * ?W" using h by (intro mult_le_mono1) simp
  finally have bound: "unat w + unat h * ?W < ?W * ?H" by (simp add: mult.commute)
  then show "unat w + unat h * ?W < length (mPixels F)"
    using Film_valid_length [OF assms(1)] by simp
  have lim: "?W * ?H < 2 ^ 64" using assms(1) by (simp add: Film_valid_def)
  have "unat h * ?W \<le> unat w + unat h * ?W" by simp
  then have "unat h * ?W < 2 ^ 64" using bound lim by linarith
  then have m: "unat (h * mWidth F) = unat h * ?W" by (simp add: unat_mult_lem [THEN iffD1])
  have "unat w + unat (h * mWidth F) < 2 ^ 64" using m bound lim by linarith
  then show "unat (w + h * mWidth F) = unat w + unat h * ?W"
    using m by (simp add: unat_add_lem [THEN iffD1])
qed

lemma pixel_valid:
  assumes "Film_valid F" and "w < mWidth F" and "h < mHeight F"
  shows "pixel F w h = Some (mPixels F ! (unat w + unat h * unat (mWidth F)))"
  using assms pixel_index [OF assms] by (simp add: pixel_def array_get_def)

section \<open>The checkerboard\<close>

lemma checkerboard_row_spec:
  assumes "p0 + unat w \<le> length px0"
  shows "\<exists>px. checkerboard_row c1 c2 tile w j (px0, p0) = Some (px, p0 + unat w)
              \<and> length px = length px0
              \<and> (\<forall>q < length px0. px ! q =
                    (if p0 \<le> q \<and> q < p0 + unat w
                     then tile_colour c1 c2 tile (of_nat (q - p0)) j else px0 ! q))"
proof -
  let ?P = "\<lambda>i s. snd s = p0 + unat i \<and> length (fst s) = length px0
              \<and> (\<forall>q < length px0. fst s ! q =
                    (if p0 \<le> q \<and> q < p0 + unat i
                     then tile_colour c1 c2 tile (of_nat (q - p0)) j else px0 ! q))"
  have "\<exists>s'. for_loop 0 w (checkerboard_column c1 c2 tile j) (px0, p0) = Some s' \<and> ?P w s'"
  proof (rule for_loop_total [where P = ?P])
    fix i :: size_t and s :: "RGBA list \<times> nat"
    assume lt: "i < w" and P: "?P i s"
    obtain px p where s: "s = (px, p)" by (cases s)
    have p: "p = p0 + unat i" and len: "length px = length px0" using P by (simp_all add: s)
    have "unat i < unat w" using lt by (simp add: word_less_nat_alt)
    then have inb: "p < length px" using p len assms by linarith
    let ?px' = "px[p := tile_colour c1 c2 tile i j]"
    have body: "checkerboard_column c1 c2 tile j i s = Some (?px', p + 1)"
      using inb by (simp add: s checkerboard_column_def tile_colour_def)
    have "?P (i + 1) (?px', p + 1)"
    proof (intro conjI allI impI)
      show "snd (?px', p + 1) = p0 + unat (i + 1)" using p by (simp add: unat_inc [OF lt])
      show "length (fst (?px', p + 1)) = length px0" using len by simp
    next
      fix q assume q: "q < length px0"
      show "fst (?px', p + 1) ! q =
            (if p0 \<le> q \<and> q < p0 + unat (i + 1)
             then tile_colour c1 c2 tile (of_nat (q - p0)) j else px0 ! q)"
      proof (cases "q = p")
        case True
        then show ?thesis using inb p by (simp add: unat_inc [OF lt])
      next
        case False
        have "fst s ! q = (if p0 \<le> q \<and> q < p0 + unat i
                           then tile_colour c1 c2 tile (of_nat (q - p0)) j else px0 ! q)"
          using P q by blast
        then show ?thesis using False p by (auto simp: s unat_inc [OF lt])
      qed
    qed
    then show "\<exists>s'. checkerboard_column c1 c2 tile j i s = Some s' \<and> ?P (i + 1) s'"
      using body by blast
  qed simp_all
  then show ?thesis by (auto simp: checkerboard_row_def)
qed

lemma row_major_div_mod:
  assumes "r < (W::nat)"
  shows "(r + j * W) div W = j" and "(r + j * W) mod W = r"
  using assms by simp_all

lemma checkerboard_pixels:
  assumes valid: "Film_valid F"
  shows "\<exists>F'. checkerboard F c1 c2 tile = Some F' \<and> Film_valid F' \<and> same_frame F F'
              \<and> (\<forall>col row. col < mWidth F \<and> row < mHeight F
                    \<longrightarrow> pixel F' col row = Some (tile_colour c1 c2 tile col row))"
proof -
  let ?W = "unat (mWidth F)" and ?H = "unat (mHeight F)"
  let ?L = "length (mPixels F)"
  have L: "?L = ?W * ?H" by (rule Film_valid_length [OF valid])
  let ?P = "\<lambda>j s. snd s = unat j * ?W \<and> length (fst s) = ?L
              \<and> (\<forall>q < ?L. q < unat j * ?W \<longrightarrow>
                    fst s ! q = tile_colour c1 c2 tile (of_nat (q mod ?W)) (of_nat (q div ?W)))"
  have "\<exists>s'. for_loop 0 (mHeight F) (checkerboard_row c1 c2 tile (mWidth F)) (mPixels F, 0) = Some s'
             \<and> ?P (mHeight F) s'"
  proof (rule for_loop_total [where P = ?P])
    fix j :: size_t and s :: "RGBA list \<times> nat"
    assume lt: "j < mHeight F" and P: "?P j s"
    obtain px p where s: "s = (px, p)" by (cases s)
    have p: "p = unat j * ?W" and len: "length px = ?L" using P by (simp_all add: s)
    have jH: "Suc (unat j) \<le> ?H" using lt by (simp add: word_less_nat_alt)
    have "Suc (unat j) * ?W \<le> ?H * ?W" using jH by (rule mult_le_mono1)
    then have fit: "p + ?W \<le> length px" using p len L by (simp add: mult.commute)
    from checkerboard_row_spec [OF fit, of c1 c2 tile j]
    obtain px' where row: "checkerboard_row c1 c2 tile (mWidth F) j (px, p) = Some (px', p + ?W)"
      and len': "length px' = length px"
      and nth': "\<And>q. q < length px \<Longrightarrow> px' ! q =
                  (if p \<le> q \<and> q < p + ?W
                   then tile_colour c1 c2 tile (of_nat (q - p)) j else px ! q)"
      by blast
    have "?P (j + 1) (px', p + ?W)"
    proof (intro conjI allI impI)
      show "snd (px', p + ?W) = unat (j + 1) * ?W" using p by (simp add: unat_inc [OF lt])
      show "length (fst (px', p + ?W)) = ?L" using len len' by simp
    next
      fix q assume q: "q < ?L" and below: "q < unat (j + 1) * ?W"
      show "fst (px', p + ?W) ! q
            = tile_colour c1 c2 tile (of_nat (q mod ?W)) (of_nat (q div ?W))"
      proof (cases "q < p")
        case True
        then have "px' ! q = px ! q" using nth' [of q] q len by simp
        moreover have "px ! q = tile_colour c1 c2 tile (of_nat (q mod ?W)) (of_nat (q div ?W))"
          using P q True p by (simp add: s)
        ultimately show ?thesis by simp
      next
        case False
        then have ge: "p \<le> q" by simp
        have up: "q < p + ?W" using below p by (simp add: unat_inc [OF lt])
        define r where "r = q - p"
        have r: "r < ?W" "q = r + unat j * ?W" using ge up p by (simp_all add: r_def)
        have "px' ! q = tile_colour c1 c2 tile (of_nat r) j"
          using nth' [of q] q len ge up by (simp add: r_def)
        then show ?thesis
          using row_major_div_mod [OF r(1), of "unat j"] by (simp add: r(2))
      qed
    qed
    then show "\<exists>s'. checkerboard_row c1 c2 tile (mWidth F) j s = Some s' \<and> ?P (j + 1) s'"
      using row by (auto simp: s)
  qed simp_all
  then obtain px p where loop:
      "for_loop 0 (mHeight F) (checkerboard_row c1 c2 tile (mWidth F)) (mPixels F, 0) = Some (px, p)"
    and len: "length px = ?L"
    and nth: "\<And>q. q < ?L \<Longrightarrow> q < ?H * ?W \<Longrightarrow>
                px ! q = tile_colour c1 c2 tile (of_nat (q mod ?W)) (of_nat (q div ?W))"
    by auto
  let ?F' = "F\<lparr>mPixels := px\<rparr>"
  have res: "checkerboard F c1 c2 tile = Some ?F'" by (simp add: checkerboard_def loop)
  have valid': "Film_valid ?F'" using valid len by (simp add: Film_valid_def)
  have frame: "same_frame F ?F'" using len by (simp add: same_frame_def)
  have "pixel ?F' col row = Some (tile_colour c1 c2 tile col row)"
    if c: "col < mWidth F" and r: "row < mHeight F" for col row
  proof -
    let ?q = "unat col + unat row * ?W"
    have cw: "unat col < ?W" using c by (simp add: word_less_nat_alt)
    have q: "?q < ?L" using pixel_index(2) [OF valid c r] .
    have "pixel ?F' col row = Some (px ! ?q)"
      using pixel_valid [OF valid', of col row] c r by simp
    moreover have "px ! ?q = tile_colour c1 c2 tile (of_nat (?q mod ?W)) (of_nat (?q div ?W))"
      using nth [OF q] q L by (simp add: mult.commute)
    ultimately show ?thesis using row_major_div_mod [OF cw, of "unat row"] by simp
  qed
  then show ?thesis using res valid' frame by blast
qed

lemma example_board_constructed: "Film_ctor (\<lambda>n. True) 33 32 = Inr example_board"
  by (simp add: Film_ctor_def example_board_def)

text \<open>
  C9. On a well-formed film the checkerboard fill succeeds and gives every pixel
  \<open>(col, row)\<close> the colour that \<open>(col & tileSize) xor (row & tileSize)\<close> decides: the
  first colour where it is not zero, the second where it is zero. With tile size 32, on a
  film of more than 32 columns and more than 31 rows, the pixels (0,0) and (31,31) have
  the same colour, the second, and the pixel (32,0) has the first colour, which differs
  from that of (0,0) whenever the two colours of the fill differ.
\<close>

theorem checkerboard_tiles:
  assumes "Film_valid F" and "32 < mWidth F" and "31 < mHeight F"
  shows "(\<exists>F'. checkerboard F c1 c2 tile = Some F'
               \<and> (\<forall>col row. col < mWidth F \<and> row < mHeight F \<longrightarrow>
                     pixel F' col row
                     = Some (if (col AND tile) XOR (row AND tile) \<noteq> 0 then c1 else c2)))
         \<and> (\<exists>F'. checkerboard F c1 c2 32 = Some F'
               \<and> pixel F' 0 0 = Some c2 \<and> pixel F' 31 31 = Some c2 \<and> pixel F' 32 0 = Some c1
               \<and> pixel F' 0 0 = pixel F' 31 31
               \<and> (c1 \<noteq> c2 \<longrightarrow> pixel F' 32 0 \<noteq> pixel F' 0 0))"
proof
  from checkerboard_pixels [OF assms(1), of c1 c2 tile]
  show "\<exists>F'. checkerboard F c1 c2 tile = Some F'
               \<and> (\<forall>col row. col < mWidth F \<and> row < mHeight F \<longrightarrow>
                     pixel F' col row
                     = Some (if (col AND tile) XOR (row AND tile) \<noteq> 0 then c1 else c2))"
    by (auto simp: tile_colour_def)
next
  from checkerboard_pixels [OF assms(1), of c1 c2 32]
  obtain F' where F': "checkerboard F c1 c2 32 = Some F'"
    and px: "\<And>col row. col < mWidth F \<Longrightarrow> row < mHeight F
               \<Longrightarrow> pixel F' col row = Some (tile_colour c1 c2 32 col row)"
    by blast
  have w0: "0 < mWidth F" and w31: "31 < mWidth F" and h0: "0 < mHeight F"
    using assms(2,3) by (simp_all add: word_less_nat_alt)
  have "pixel F' 0 0 = Some c2" using px [OF w0 h0] by (simp add: tile_colour_def)
  moreover have "pixel F' 31 31 = Some c2" using px [OF w31 assms(3)] by (simp add: tile_colour_def)
  moreover have "pixel F' 32 0 = Some c1" using px [OF assms(2) h0] by (simp add: tile_colour_def)
  ultimately show "\<exists>F'. checkerboard F c1 c2 32 = Some F'
               \<and> pixel F' 0 0 = Some c2 \<and> pixel F' 31 31 = Some c2 \<and> pixel F' 32 0 = Some c1
               \<and> pixel F' 0 0 = pixel F' 31 31
               \<and> (c1 \<noteq> c2 \<longrightarrow> pixel F' 32 0 \<noteq> pixel F' 0 0)"
    using F' by auto
qed

theorem checkerboard_tiles_witness:
  "Film_valid example_board \<and> 32 < mWidth example_board \<and> 31 < mHeight example_board
   \<and> RGBA_intensity 0.3 \<noteq> RGBA_intensity 0.6
   \<and> (\<exists>F'. checkerboard example_board (RGBA_intensity 0.3) (RGBA_intensity 0.6) 32 = Some F'
          \<and> pixel F' 0 0 = pixel F' 31 31 \<and> pixel F' 32 0 \<noteq> pixel F' 0 0)"
proof -
  have h: "Film_valid example_board" "32 < mWidth example_board" "31 < mHeight example_board"
    by (simp_all add: Film_valid_def example_board_def)
  have c: "RGBA_intensity 0.3 \<noteq> RGBA_intensity 0.6"
    by (simp add: RGBA_intensity_def)
  show ?thesis
    using h c checkerboard_tiles [OF h, of "RGBA_intensity 0.3" "RGBA_intensity 0.6" 32]
    by blast
qed

section \<open>Construction of a film\<close>

lemma fill_spec:
  assumes "length (mPixels F) = unat (mSize F)"
  shows "fill F rgb = Some (F\<lparr>mPixels := replicate (unat (mSize F)) rgb\<rparr>)"
proof -
  let ?L = "length (mPixels F)"
  let ?P = "\<lambda>i px. length px = ?L \<and> (\<forall>q < ?L. q < unat i \<longrightarrow> px ! q = rgb)"
  have "\<exists>px. for_loop 0 (mSize F) (fill_step rgb) (mPixels F) = Some px \<and> ?P (mSize F) px"
  proof (rule for_loop_total [where P = ?P])
    fix i :: size_t and px :: "RGBA list"
    assume lt: "i < mSize F" and P: "?P i px"
    have inb: "unat i < length px" using lt P assms by (simp add: word_less_nat_alt)
    have "?P (i + 1) (px[unat i := rgb])"
      using P inb by (auto simp: unat_inc [OF lt] nth_list_update less_Suc_eq)
    then show "\<exists>px'. fill_step rgb i px = Some px' \<and> ?P (i + 1) px'"
      using inb by (simp add: fill_step_def)
  qed simp_all
  then obtain px where loop: "for_loop 0 (mSize F) (fill_step rgb) (mPixels F) = Some px"
    and len: "length px = ?L" and nth: "\<And>q. q < ?L \<Longrightarrow> px ! q = rgb"
    using assms by auto
  have "px = replicate (unat (mSize F)) rgb"
    using len nth assms by (simp add: list_eq_iff_nth_eq)
  then show ?thesis by (simp add: fill_def loop)
qed

text \<open>
  C4, as the code has it. Neither constructor checks a dimension: whenever the
  allocation of \<open>width \<cdot> height mod 2\<^sup>6\<^sup>4\<close> pixels succeeds, it returns a film with the
  given width and height, with \<^verbatim>\<open>mSize\<close> the wrapped product and that many pixels, default
  ones or copies of the background. No dimension is rejected; the only failure is that
  of the allocation.
\<close>

theorem Film_ctor_unchecked:
  assumes "alloc (unat (width * height))"
  shows "Film_ctor alloc width height
         = Inr \<lparr>mWidth = width, mHeight = height, mSize = width * height,
                mPixels = replicate (unat (width * height)) RGBA_default\<rparr>
         \<and> Film_ctor_bg alloc width height bg
         = Inr \<lparr>mWidth = width, mHeight = height, mSize = width * height,
                mPixels = replicate (unat (width * height)) bg\<rparr>
         \<and> unat (width * height) = (unat width * unat height) mod 2 ^ 64"
proof -
  let ?F = "\<lparr>mWidth = width, mHeight = height, mSize = width * height,
              mPixels = replicate (unat (width * height)) RGBA_default\<rparr>"
  have c: "Film_ctor alloc width height = Inr ?F"
    using assms by (simp add: Film_ctor_def Let_def)
  have "fill ?F bg = Some (?F\<lparr>mPixels := replicate (unat (mSize ?F)) bg\<rparr>)"
    by (rule fill_spec) simp
  then have "Film_ctor_bg alloc width height bg
             = Inr \<lparr>mWidth = width, mHeight = height, mSize = width * height,
                    mPixels = replicate (unat (width * height)) bg\<rparr>"
    by (simp add: Film_ctor_bg_def c)
  then show ?thesis using c by (simp add: unat_word_ariths)
qed

theorem Film_ctor_unchecked_witness:
  "(\<lambda>n. n < 2 ^ 20) (unat ((2::size_t) * 1))
   \<and> Film_ctor (\<lambda>n. n < 2 ^ 20) 2 1
       = Inr \<lparr>mWidth = 2, mHeight = 1, mSize = 2, mPixels = [RGBA_default, RGBA_default]\<rparr>
   \<and> Film_ctor_bg (\<lambda>n. n < 2 ^ 20) 2 1 (RGBA_intensity 0)
       = Inr \<lparr>mWidth = 2, mHeight = 1, mSize = 2,
              mPixels = [RGBA_intensity 0, RGBA_intensity 0]\<rparr>"
  using Film_ctor_unchecked [of "\<lambda>n. n < 2 ^ 20" 2 1 "RGBA_intensity 0"] by (simp add: replicate2)

text \<open>
  C4 as stated fails: a width of zero is accepted, and so is a width of \<open>2\<^sup>6\<^sup>3\<close> with a
  height of 2, whose product overflows, by either constructor; the film then claims
  \<open>2\<^sup>6\<^sup>3\<close> columns and has no pixel.
\<close>

theorem Film_ctor_accepts_bad_dimensions:
  "Film_ctor (\<lambda>n. n < 2 ^ 20) 0 5 = Inr \<lparr>mWidth = 0, mHeight = 5, mSize = 0, mPixels = []\<rparr>
   \<and> Film_ctor (\<lambda>n. n < 2 ^ 20) (2 ^ 63) 2
       = Inr \<lparr>mWidth = 2 ^ 63, mHeight = 2, mSize = 0, mPixels = []\<rparr>
   \<and> Film_ctor_bg (\<lambda>n. n < 2 ^ 20) (2 ^ 63) 2 (RGBA_intensity 0)
       = Inr \<lparr>mWidth = 2 ^ 63, mHeight = 2, mSize = 0, mPixels = []\<rparr>
   \<and> unat ((2::size_t) ^ 63) * unat (2::size_t) = 2 ^ 64"
  by (simp add: Film_ctor_def Film_ctor_bg_def fill_def for_loop_done)

section \<open>PPM export\<close>

lemma to_uchar_convertible:
  assumes "convertible v"
  shows "to_uchar (255 * v) = Some (clamp_byte v)"
proof (cases "0 \<le> 255 * v")
  case True
  then have "0 \<le> \<lfloor>255 * v\<rfloor>" by simp
  moreover have "\<lfloor>255 * v\<rfloor> \<le> 255" using assms by (simp add: convertible_def floor_le_iff)
  ultimately show ?thesis using True by (simp add: to_uchar_def clamp_byte_def Let_def)
next
  case False
  then have neg: "255 * v < 0" by simp
  have c: "\<lceil>255 * v\<rceil> = 0" using assms neg by (simp add: convertible_def ceiling_eq_iff)
  have "\<lfloor>255 * v\<rfloor> \<le> 0" using neg by (simp add: floor_le_iff)
  then show ?thesis using False c by (simp add: to_uchar_def clamp_byte_def Let_def)
qed

lemma savePPM_loop_spec:
  assumes "unat n = length ps"
    and "\<forall>p \<in> set ps. convertible (rC p) \<and> convertible (gC p) \<and> convertible (bC p)"
  shows "savePPM_loop n ps q = Some (q @ concat (map ppm_triple ps))"
  using assms
proof (induction ps arbitrary: n q)
  case Nil
  then have "n = 0" by (simp add: unat_eq_0)
  then show ?case by (simp add: savePPM_loop.simps)
next
  case (Cons p ps)
  then have n: "n \<noteq> 0" by auto
  then have "unat (n - 1) = length ps" using Cons.prems(1) by (simp add: unat_minus_one)
  from Cons.IH [OF this] Cons.prems(2)
  have "savePPM_loop (n - 1) ps (q @ ppm_triple p) = Some ((q @ ppm_triple p) @ concat (map ppm_triple ps))"
    by simp
  moreover have "to_uchar (255 * rC p) = Some (clamp_byte (rC p))"
    "to_uchar (255 * gC p) = Some (clamp_byte (gC p))"
    "to_uchar (255 * bC p) = Some (clamp_byte (bC p))"
    using Cons.prems(2) by (simp_all add: to_uchar_convertible)
  ultimately show ?case using n
    by (subst savePPM_loop.simps) (simp add: ppm_triple_def)
qed

lemma length_triples: "length (concat (map ppm_triple ps)) = 3 * length ps"
  by (induction ps) (simp_all add: ppm_triple_def)

lemma triples_at:
  "k < length ps \<Longrightarrow> take 3 (drop (3 * k) (concat (map ppm_triple ps))) = ppm_triple (ps ! k)"
proof (induction ps arbitrary: k)
  case Nil
  then show ?case by simp
next
  case (Cons p ps)
  show ?case
  proof (cases k)
    case 0
    then show ?thesis by (simp add: ppm_triple_def)
  next
    case (Suc m)
    have "3 * Suc m = Suc (Suc (Suc (3 * m)))" by simp
    then have "drop (3 * Suc m) (ppm_triple p @ concat (map ppm_triple ps))
          = drop (3 * m) (concat (map ppm_triple ps))"
      by (simp add: ppm_triple_def del: mult_Suc_right)
    then show ?thesis using Cons Suc by simp
  qed
qed

text \<open>
  C3, as the code has it. For a well-formed film whose colour channels all lie where the
  conversion to a byte is defined (\<open>-1 < 255 \<cdot> v < 256\<close>, which includes the interval
  from 0 to 1), PPM export writes the header \<^verbatim>\<open>P6\n\<close>, the width, a space, the height,
  \<^verbatim>\<open>\n255\n\<close>, and then 3 \<open>\<cdot>\<close> W \<open>\<cdot>\<close> H bytes: the triple of pixel \<open>(w, h)\<close> stands
  at offset \<open>3 \<cdot> (w + h \<cdot> W)\<close>, row-major, each channel \<open>v\<close> as \<open>floor(255 \<cdot> v)\<close>
  clamped to 0..255, without the alpha. The code does not clamp: outside that range the
  conversion is undefined.
\<close>

theorem savePPM_content:
  assumes "Film_valid F"
    and "\<forall>p \<in> set (mPixels F). convertible (rC p) \<and> convertible (gC p) \<and> convertible (bC p)"
  shows "savePPM F True
         = Inr (ppm_header (mWidth F) (mHeight F) @ concat (map ppm_triple (mPixels F)))
         \<and> length (concat (map ppm_triple (mPixels F))) = 3 * (unat (mWidth F) * unat (mHeight F))
         \<and> (\<forall>w h. w < mWidth F \<and> h < mHeight F \<longrightarrow>
               (\<exists>p. pixel F w h = Some p
                  \<and> take 3 (drop (3 * (unat w + unat h * unat (mWidth F)))
                              (concat (map ppm_triple (mPixels F))))
                    = [clamp_byte (rC p), clamp_byte (gC p), clamp_byte (bC p)]))"
proof (intro conjI allI impI)
  have "unat (mSize F) = length (mPixels F)" using assms(1) by (simp add: Film_valid_def)
  from savePPM_loop_spec [OF this assms(2), of "[]"]
  show "savePPM F True
        = Inr (ppm_header (mWidth F) (mHeight F) @ concat (map ppm_triple (mPixels F)))"
    by (simp add: savePPM_def ppm_header_def)
  show "length (concat (map ppm_triple (mPixels F))) = 3 * (unat (mWidth F) * unat (mHeight F))"
    using Film_valid_length [OF assms(1)] by (simp add: length_triples)
next
  fix w h assume wh: "w < mWidth F \<and> h < mHeight F"
  then have w: "w < mWidth F" and h: "h < mHeight F" by simp_all
  let ?k = "unat w + unat h * unat (mWidth F)"
  have "pixel F w h = Some (mPixels F ! ?k)" by (rule pixel_valid [OF assms(1) w h])
  moreover have "take 3 (drop (3 * ?k) (concat (map ppm_triple (mPixels F))))
                 = ppm_triple (mPixels F ! ?k)"
    by (rule triples_at [OF pixel_index(2) [OF assms(1) w h]])
  ultimately show "\<exists>p. pixel F w h = Some p
                  \<and> take 3 (drop (3 * ?k) (concat (map ppm_triple (mPixels F))))
                    = [clamp_byte (rC p), clamp_byte (gC p), clamp_byte (bC p)]"
    by (simp add: ppm_triple_def)
qed

lemma example_ppm_film_ok:
  "Film_valid example_ppm_film"
  "\<forall>p \<in> set (mPixels example_ppm_film).
      convertible (rC p) \<and> convertible (gC p) \<and> convertible (bC p)"
  by (simp_all add: Film_valid_def example_ppm_film_def convertible_def)

theorem savePPM_content_witness:
  "Film_valid example_ppm_film
   \<and> mPixels example_ppm_film
       = [\<lparr>rC = 1, gC = 0, bC = 0, aC = 1\<rparr>, \<lparr>rC = 0, gC = 1, bC = 0, aC = 1\<rparr>]
   \<and> convertible 1 \<and> convertible 0
   \<and> savePPM example_ppm_film True
       = Inr (map of_char (''P6'' @ [CHR 0x0A] @ ''2 1'' @ [CHR 0x0A] @ ''255'' @ [CHR 0x0A])
              @ [255, 0, 0, 0, 255, 0])"
proof -
  have "ppm_header (mWidth example_ppm_film) (mHeight example_ppm_film)
        = map of_char (''P6'' @ [CHR 0x0A] @ ''2 1'' @ [CHR 0x0A] @ ''255'' @ [CHR 0x0A])"
    by (simp add: ppm_header_def example_ppm_film_def decimal.simps)
  moreover have "concat (map ppm_triple (mPixels example_ppm_film)) = [255, 0, 0, 0, 255, 0]"
    by (simp add: example_ppm_film_def ppm_triple_def clamp_byte_def)
  moreover have "convertible 1" "convertible 0"
    by (simp_all add: convertible_def)
  moreover have "mPixels example_ppm_film
       = [\<lparr>rC = 1, gC = 0, bC = 0, aC = 1\<rparr>, \<lparr>rC = 0, gC = 1, bC = 0, aC = 1\<rparr>]"
    by (simp add: example_ppm_film_def)
  ultimately show ?thesis
    using example_ppm_film_ok savePPM_content [OF example_ppm_film_ok] by simp
qed

text \<open>
  C3 as stated fails: for a pixel whose red channel is 2 the specification asks for the
  byte 255, and the code converts 510 to \<^verbatim>\<open>unsigned char\<close>, which is undefined.
\<close>

theorem savePPM_no_clamp:
  "Film_valid overexposed_film
   \<and> savePPM overexposed_film True = Inl Undefined
   \<and> savePPM overexposed_film True
       \<noteq> Inr (ppm_header 1 1 @ [clamp_byte 2, clamp_byte 0, clamp_byte 0])
   \<and> clamp_byte 2 = 255"
  by (simp add: savePPM_def savePPM_loop.simps overexposed_film_def to_uchar_def
                Film_valid_def clamp_byte_def)

section \<open>The pixels a range of rows receives\<close>

lemma accumulate_snoc: "accumulate c (cs @ [x]) = RGBA_add_assign (accumulate c cs) x"
  by (simp add: accumulate_def RGBA_add_assign_def)

lemma accumulate_Nil: "accumulate c [] = c"
  by (simp add: accumulate_def)

lemma scale_accumulate:
  "RGBA_scale (accumulate c cs) (1 / (1 + real (length cs))) = (average (c # cs))\<lparr>aC := 1\<rparr>"
  by (simp add: RGBA_scale_def RGBA3_def accumulate_def average_def add.commute)

lemma unat_and15: "unat (x AND (15::size_t)) < 16"
proof -
  have "x AND 15 \<le> 15" by (rule word_and_le1)
  then have "unat (x AND 15) \<le> unat (15::size_t)" by (simp add: word_le_nat_alt)
  then show ?thesis by simp
qed

lemma subpixel_loop_spec:
  assumes "tracer_valid T"
  shows "for_loop 0 (mSubPixels T) (subpixel_step T bg i j) (c, n)
         = Some (accumulate c (map (shade_or_bg T bg) (jitter_rays T i j n)),
                 n + 2 * mSubPixels T)"
proof (cases "0 < mSubPixels T")
  case False
  then have z: "mSubPixels T = 0" by (simp add: word_gt_0)
  show ?thesis
    by (simp add: z for_loop_done jitter_rays_def accumulate_Nil split: option.splits)
next
  case True
  then obtain tbl where tbl: "mRand T = Some tbl" "length tbl = 16"
    using assms by (auto simp: tracer_valid_def)
  let ?ray = "\<lambda>k. mCamera T i j (tbl ! unat ((n + 2 * of_nat k) AND 15))
                                   (tbl ! unat ((n + 2 * of_nat k + 1) AND 15))"
  let ?P = "\<lambda>k s. s = (accumulate c (map (shade_or_bg T bg) (map ?ray [0..<unat k])), n + 2 * k)"
  have "\<exists>s'. for_loop 0 (mSubPixels T) (subpixel_step T bg i j) (c, n) = Some s'
             \<and> ?P (mSubPixels T) s'"
  proof (rule for_loop_total [where P = ?P])
    fix k :: size_t and s :: "RGBA \<times> size_t"
    assume lt: "k < mSubPixels T" and P: "?P k s"
    have up: "[0..<unat (k + 1)] = [0..<unat k] @ [unat k]" by (simp add: unat_inc [OF lt])
    have "subpixel_step T bg i j k s
          = Some (RGBA_add_assign (fst s) (shade_or_bg T bg (?ray (unat k))), n + 2 * k + 2)"
      using P tbl unat_and15 by (simp add: subpixel_step_def array_get_def)
    moreover have "accumulate c (map (shade_or_bg T bg) (map ?ray [0..<unat (k + 1)]))
                   = RGBA_add_assign (fst s) (shade_or_bg T bg (?ray (unat k)))"
      unfolding up using P by (simp add: accumulate_snoc)
    moreover have "n + 2 * (k + 1) = n + 2 * k + 2" by (simp add: algebra_simps)
    ultimately have "?P (k + 1) (RGBA_add_assign (fst s) (shade_or_bg T bg (?ray (unat k))),
                              n + 2 * k + 2)"
      by simp
    moreover note \<open>subpixel_step T bg i j k s
          = Some (RGBA_add_assign (fst s) (shade_or_bg T bg (?ray (unat k))), n + 2 * k + 2)\<close>
    ultimately show "\<exists>s'. subpixel_step T bg i j k s = Some s' \<and> ?P (k + 1) s'" by blast
  qed (simp_all add: accumulate_Nil)
  then show ?thesis by (simp add: jitter_rays_def tbl)
qed

lemma length_jitter_rays:
  "tracer_valid T \<Longrightarrow> length (jitter_rays T i j n) = unat (mSubPixels T)"
  by (cases "0 < mSubPixels T")
     (auto simp: jitter_rays_def tracer_valid_def word_gt_0 split: option.splits)

lemma pixel_step_spec:
  assumes "Film_valid F" and "tracer_valid T" and "i < mWidth F" and "j < mHeight F"
  shows "pixel_step T j i (F, n)
         = Some (F\<lparr>mPixels := (mPixels F)[unat i + unat j * unat (mWidth F)
                      := traced_pixel T (mPixels F ! (unat i + unat j * unat (mWidth F))) i j n]\<rparr>,
                 n + 2 * mSubPixels T)"
proof -
  let ?q = "unat i + unat j * unat (mWidth F)"
  let ?bg = "mPixels F ! ?q"
  note idx = pixel_index [OF assms(1,3,4)]
  have px: "pixel F i j = Some ?bg" by (rule pixel_valid [OF assms(1,3,4)])
  have assign: "pixel_assign F i j c = Some (F\<lparr>mPixels := (mPixels F)[?q := c]\<rparr>)" for c
    using assms(3,4) idx by (simp add: pixel_assign_def)
  have "RGBA_scale (accumulate (shade_or_bg T ?bg (mCamera T i j 0.5 0.5))
                      (map (shade_or_bg T ?bg) (jitter_rays T i j n)))
                   (1 / (1 + real (unat (mSubPixels T))))
        = traced_pixel T ?bg i j n"
    using scale_accumulate [of "shade_or_bg T ?bg (mCamera T i j 0.5 0.5)"
                               "map (shade_or_bg T ?bg) (jitter_rays T i j n)"]
    by (simp add: traced_pixel_def pixel_rays_def length_jitter_rays [OF assms(2)])
  then show ?thesis
    by (simp add: pixel_step_def px subpixel_loop_spec [OF assms(2)] assign)
qed

lemma row_step_spec:
  assumes valid: "Film_valid F" and T: "tracer_valid T" and j: "j < mHeight F"
  shows "\<exists>px. row_step T j (F, n) = Some (F\<lparr>mPixels := px\<rparr>, n + 2 * mSubPixels T * mWidth F)
              \<and> length px = length (mPixels F)
              \<and> (\<forall>q < length (mPixels F). px ! q =
                    (if unat j * unat (mWidth F) \<le> q \<and> q < unat j * unat (mWidth F) + unat (mWidth F)
                     then traced_pixel T (mPixels F ! q) (of_nat (q - unat j * unat (mWidth F))) j
                            (n + 2 * mSubPixels T * of_nat (q - unat j * unat (mWidth F)))
                     else mPixels F ! q))"
proof -
  let ?W = "unat (mWidth F)" and ?L = "length (mPixels F)"
  let ?p0 = "unat j * ?W"
  let ?new = "\<lambda>q. traced_pixel T (mPixels F ! q) (of_nat (q - ?p0)) j
                      (n + 2 * mSubPixels T * of_nat (q - ?p0))"
  let ?P = "\<lambda>i s. snd s = n + 2 * mSubPixels T * i
              \<and> (\<exists>px. fst s = F\<lparr>mPixels := px\<rparr> \<and> length px = ?L
                    \<and> (\<forall>q < ?L. px ! q = (if ?p0 \<le> q \<and> q < ?p0 + unat i then ?new q
                                           else mPixels F ! q)))"
  have "\<exists>s'. for_loop 0 (mWidth F) (pixel_step T j) (F, n) = Some s' \<and> ?P (mWidth F) s'"
  proof (rule for_loop_total [where P = ?P])
    show "?P 0 (F, n)" by (auto intro: exI [of _ "mPixels F"])
  next
    fix i :: size_t and s :: "Film \<times> size_t"
    assume lt: "i < mWidth F" and P: "?P i s"
    from P obtain px where m: "snd s = n + 2 * mSubPixels T * i"
      and G: "fst s = F\<lparr>mPixels := px\<rparr>" and len: "length px = ?L"
      and nth: "\<And>q. q < ?L \<Longrightarrow> px ! q = (if ?p0 \<le> q \<and> q < ?p0 + unat i then ?new q
                                              else mPixels F ! q)"
      by blast
    let ?G = "F\<lparr>mPixels := px\<rparr>"
    let ?q = "unat i + ?p0"
    have s: "s = (?G, n + 2 * mSubPixels T * i)" using m G by (cases s) simp
    have validG: "Film_valid ?G" using valid len by (simp add: Film_valid_def)
    have qL: "?q < ?L" using pixel_index(2) [OF valid lt j] .
    have old: "px ! ?q = mPixels F ! ?q" using nth [OF qL] by simp
    let ?c = "traced_pixel T (mPixels F ! ?q) i j (n + 2 * mSubPixels T * i)"
    have step: "pixel_step T j i s
                = Some (F\<lparr>mPixels := px[?q := ?c]\<rparr>, n + 2 * mSubPixels T * i + 2 * mSubPixels T)"
      using pixel_step_spec [OF validG T, of i j "n + 2 * mSubPixels T * i"] lt j old
      by (simp add: s)
    have "?P (i + 1) (F\<lparr>mPixels := px[?q := ?c]\<rparr>, n + 2 * mSubPixels T * i + 2 * mSubPixels T)"
    proof (intro conjI exI [of _ "px[?q := ?c]"] allI impI)
      show "snd (F\<lparr>mPixels := px[?q := ?c]\<rparr>, n + 2 * mSubPixels T * i + 2 * mSubPixels T)
            = n + 2 * mSubPixels T * (i + 1)"
        by (simp add: algebra_simps)
      show "fst (F\<lparr>mPixels := px[?q := ?c]\<rparr>, n + 2 * mSubPixels T * i + 2 * mSubPixels T)
            = F\<lparr>mPixels := px[?q := ?c]\<rparr>" by simp
      show "length (px[?q := ?c]) = ?L" using len by simp
    next
      fix q assume q: "q < ?L"
      show "px[?q := ?c] ! q = (if ?p0 \<le> q \<and> q < ?p0 + unat (i + 1) then ?new q
                                else mPixels F ! q)"
      proof (cases "q = ?q")
        case True
        then show ?thesis using qL len by (simp add: unat_inc [OF lt])
      next
        case False
        then show ?thesis using nth [OF q] by (auto simp: unat_inc [OF lt])
      qed
    qed
    then show "\<exists>s'. pixel_step T j i s = Some s' \<and> ?P (i + 1) s'" using step by blast
  qed simp
  then show ?thesis by (auto simp: row_step_def)
qed

lemma row_band:
  assumes "0 < (W::nat)"
  shows "(j * W \<le> q \<and> q < j * W + W) \<longleftrightarrow> q div W = j"
proof
  assume "j * W \<le> q \<and> q < j * W + W"
  then have "j \<le> q div W" and "q div W < Suc j"
    using assms by (simp_all add: less_eq_div_iff_mult_less_eq div_less_iff_less_mult)
  then show "q div W = j" by simp
next
  assume "q div W = j"
  then have "j \<le> q div W" and "q div W < Suc j" by simp_all
  then show "j * W \<le> q \<and> q < j * W + W"
    using assms by (simp_all add: less_eq_div_iff_mult_less_eq div_less_iff_less_mult)
qed

lemma rows_spec:
  assumes valid: "Film_valid F" and T: "tracer_valid T" and be: "b \<le> e" and eH: "e \<le> mHeight F"
  shows "\<exists>px. for_loop b e (row_step T) (F, n)
               = Some (F\<lparr>mPixels := px\<rparr>, n + 2 * mSubPixels T * mWidth F * (e - b))
              \<and> length px = length (mPixels F)
              \<and> (\<forall>q < length (mPixels F). px ! q =
                    (if unat b \<le> q div unat (mWidth F) \<and> q div unat (mWidth F) < unat e
                     then traced_pixel T (mPixels F ! q)
                            (of_nat (q mod unat (mWidth F))) (of_nat (q div unat (mWidth F)))
                            (n + 2 * mSubPixels T
                                 * (mWidth F * (of_nat (q div unat (mWidth F)) - b)
                                    + of_nat (q mod unat (mWidth F))))
                     else mPixels F ! q))"
proof -
  let ?W = "unat (mWidth F)" and ?L = "length (mPixels F)"
  let ?new = "\<lambda>q. traced_pixel T (mPixels F ! q) (of_nat (q mod ?W)) (of_nat (q div ?W))
                      (n + 2 * mSubPixels T
                           * (mWidth F * (of_nat (q div ?W) - b) + of_nat (q mod ?W)))"
  let ?P = "\<lambda>j s. snd s = n + 2 * mSubPixels T * mWidth F * (j - b)
              \<and> (\<exists>px. fst s = F\<lparr>mPixels := px\<rparr> \<and> length px = ?L
                    \<and> (\<forall>q < ?L. px ! q = (if unat b \<le> q div ?W \<and> q div ?W < unat j
                                           then ?new q else mPixels F ! q)))"
  have "\<exists>s'. for_loop b e (row_step T) (F, n) = Some s' \<and> ?P e s'"
  proof (rule for_loop_total [where P = ?P, OF be])
    show "?P b (F, n)" by (auto intro: exI [of _ "mPixels F"])
  next
    fix j :: size_t and s :: "Film \<times> size_t"
    assume bj: "b \<le> j" and lt: "j < e" and P: "?P j s"
    from P obtain px where m: "snd s = n + 2 * mSubPixels T * mWidth F * (j - b)"
      and G: "fst s = F\<lparr>mPixels := px\<rparr>" and len: "length px = ?L"
      and nth: "\<And>q. q < ?L \<Longrightarrow> px ! q = (if unat b \<le> q div ?W \<and> q div ?W < unat j
                                              then ?new q else mPixels F ! q)"
      by blast
    let ?G = "F\<lparr>mPixels := px\<rparr>"
    let ?m = "n + 2 * mSubPixels T * mWidth F * (j - b)"
    have s: "s = (?G, ?m)" using m G by (cases s) simp
    have validG: "Film_valid ?G" using valid len by (simp add: Film_valid_def)
    have jH: "j < mHeight ?G" using lt eH by simp
    from row_step_spec [OF validG T jH, of ?m]
    obtain px' where row: "row_step T j s = Some (F\<lparr>mPixels := px'\<rparr>, ?m + 2 * mSubPixels T * mWidth F)"
      and len': "length px' = ?L"
      and nth': "\<And>q. q < ?L \<Longrightarrow> px' ! q =
                   (if unat j * ?W \<le> q \<and> q < unat j * ?W + ?W
                    then traced_pixel T (px ! q) (of_nat (q - unat j * ?W)) j
                           (?m + 2 * mSubPixels T * of_nat (q - unat j * ?W))
                    else px ! q)"
      using len by (auto simp: s)
    have bj': "unat b \<le> unat j" using bj by (simp add: word_le_nat_alt)
    have "?P (j + 1) (F\<lparr>mPixels := px'\<rparr>, ?m + 2 * mSubPixels T * mWidth F)"
    proof (intro conjI exI [of _ px'] allI impI)
      show "snd (F\<lparr>mPixels := px'\<rparr>, ?m + 2 * mSubPixels T * mWidth F)
            = n + 2 * mSubPixels T * mWidth F * (j + 1 - b)"
        by (simp add: algebra_simps)
      show "fst (F\<lparr>mPixels := px'\<rparr>, ?m + 2 * mSubPixels T * mWidth F) = F\<lparr>mPixels := px'\<rparr>"
        by simp
      show "length px' = ?L" by (rule len')
    next
      fix q assume q: "q < ?L"
      then have Wpos: "0 < ?W" using Film_valid_length [OF valid] by (cases "?W = 0") simp_all
      show "px' ! q = (if unat b \<le> q div ?W \<and> q div ?W < unat (j + 1) then ?new q
                       else mPixels F ! q)"
      proof (cases "q div ?W = unat j")
        case True
        then have band: "unat j * ?W \<le> q \<and> q < unat j * ?W + ?W"
          using row_band [OF Wpos, of "unat j" q] by simp
        have rem: "q - unat j * ?W = q mod ?W"
          using True by (metis minus_div_mult_eq_mod)
        have j': "(of_nat (q div ?W) :: size_t) = j" using True by simp
        have old: "px ! q = mPixels F ! q" using nth [OF q] True by simp
        have "px' ! q = traced_pixel T (mPixels F ! q) (of_nat (q mod ?W)) j
                          (?m + 2 * mSubPixels T * of_nat (q mod ?W))"
          using nth' [OF q] band old rem by simp
        moreover have "?m + 2 * mSubPixels T * of_nat (q mod ?W)
                       = n + 2 * mSubPixels T * (mWidth F * (j - b) + of_nat (q mod ?W))"
          by (simp add: algebra_simps)
        ultimately show ?thesis using True bj' by (simp add: j' unat_inc [OF lt])
      next
        case False
        then have nb: "\<not> (unat j * ?W \<le> q \<and> q < unat j * ?W + ?W)"
          using row_band [OF Wpos, of "unat j" q] by simp
        have "px' ! q = px ! q" by (subst nth' [OF q]) (rule if_not_P [OF nb])
        then show ?thesis using nth [OF q] False by (auto simp: unat_inc [OF lt])
      qed
    qed
    then show "\<exists>s'. row_step T j s = Some s' \<and> ?P (j + 1) s'" using row by blast
  qed
  then show ?thesis by auto
qed

lemma operator_call_pixels:
  assumes valid: "Film_valid F" and T: "tracer_valid T" and be: "b \<le> e" and eH: "e \<le> mHeight F"
  shows "\<exists>F'. operator_call T (b, e) F = Some F' \<and> Film_valid F' \<and> same_frame F F'
              \<and> (\<forall>i j. i < mWidth F \<and> j < mHeight F \<longrightarrow>
                    pixel F' i j =
                      (if b \<le> j \<and> j < e
                       then Some (traced_pixel T (mPixels F ! (unat i + unat j * unat (mWidth F))) i j
                                    (2 * mSubPixels T * (mWidth F * (j - b) + i)))
                       else pixel F i j))"
proof -
  let ?W = "unat (mWidth F)"
  from rows_spec [OF assms, of 0]
  obtain px where loop: "for_loop b e (row_step T) (F, 0)
                         = Some (F\<lparr>mPixels := px\<rparr>, 0 + 2 * mSubPixels T * mWidth F * (e - b))"
    and len: "length px = length (mPixels F)"
    and nth: "\<And>q. q < length (mPixels F) \<Longrightarrow> px ! q =
                (if unat b \<le> q div ?W \<and> q div ?W < unat e
                 then traced_pixel T (mPixels F ! q) (of_nat (q mod ?W)) (of_nat (q div ?W))
                        (0 + 2 * mSubPixels T
                             * (mWidth F * (of_nat (q div ?W) - b) + of_nat (q mod ?W)))
                 else mPixels F ! q)"
    by blast
  let ?F' = "F\<lparr>mPixels := px\<rparr>"
  have res: "operator_call T (b, e) F = Some ?F'" by (simp add: operator_call_def loop)
  have valid': "Film_valid ?F'" using valid len by (simp add: Film_valid_def)
  have frame: "same_frame F ?F'" using len by (simp add: same_frame_def)
  have "pixel ?F' i j =
          (if b \<le> j \<and> j < e
           then Some (traced_pixel T (mPixels F ! (unat i + unat j * ?W)) i j
                        (2 * mSubPixels T * (mWidth F * (j - b) + i)))
           else pixel F i j)"
    if i: "i < mWidth F" and j: "j < mHeight F" for i j
  proof -
    let ?q = "unat i + unat j * ?W"
    have iW: "unat i < ?W" using i by (simp add: word_less_nat_alt)
    note dm = row_major_div_mod [OF iW, of "unat j"]
    have q: "?q < length (mPixels F)" by (rule pixel_index(2) [OF valid i j])
    have "pixel ?F' i j = Some (px ! ?q)" using pixel_valid [OF valid', of i j] i j by simp
    moreover have "pixel F i j = Some (mPixels F ! ?q)" by (rule pixel_valid [OF valid i j])
    ultimately show ?thesis
      using nth [OF q] iW by (simp add: dm word_le_nat_alt word_less_nat_alt)
  qed
  then show ?thesis using res valid' frame by blast
qed

section \<open>The samples of a pixel\<close>

lemma ctor_valid:
  "LevelSetRayTracer_ctor rand01 intersector shader camera pixelSamples seed = Some T
   \<Longrightarrow> tracer_valid T"
  by (auto simp: LevelSetRayTracer_ctor_def setPixelSamples_def tracer_valid_def Let_def
           split: if_splits)

lemma Film_ctor_valid:
  "unat width * unat height < 2 ^ 64 \<Longrightarrow> Film_ctor alloc width height = Inr F \<Longrightarrow> Film_valid F"
  by (auto simp: Film_ctor_def Film_valid_def Let_def split: if_splits)


lemma translucent_tracer_constructed:
  "LevelSetRayTracer_ctor example_rand01 half_space
     (MatteShader \<lparr>rC = 1, gC = 1, bC = 1, aC = 1/2\<rparr>)
     (OrthographicCamera_getRay example_camera) 2 0 = Some translucent_tracer"
  by (simp add: LevelSetRayTracer_ctor_def setPixelSamples_def example_tracer_def Let_def
                translucent_tracer_def example_rand01_def upt16)

lemma veiled_film_constructed:
  "Film_ctor_bg (\<lambda>n. True) 1 2 \<lparr>rC = 1/5, gC = 1/5, bC = 1/5, aC = 1/4\<rparr> = Inr veiled_film"
proof -
  have "fill example_film \<lparr>rC = 1/5, gC = 1/5, bC = 1/5, aC = 1/4\<rparr> = Some veiled_film"
    using fill_spec [of example_film "\<lparr>rC = 1/5, gC = 1/5, bC = 1/5, aC = 1/4\<rparr>"]
    by (simp add: example_film_def veiled_film_def replicate2)
  then show ?thesis by (simp add: Film_ctor_bg_def example_film_constructed)
qed







section \<open>Alpha after a trace\<close>

lemma traced_pixel_alpha: "aC (traced_pixel T bg i j n) = 1"
  by (simp add: traced_pixel_def)

lemma operator_call_opaque:
  assumes "Film_valid F" and "tracer_valid T" and "b \<le> e" and "e \<le> mHeight F"
  shows "\<exists>F'. operator_call T (b, e) F = Some F' \<and> opaque_rows b e F F'"
proof -
  from operator_call_pixels [OF assms]
  obtain F' where "operator_call T (b, e) F = Some F'" and "Film_valid F'" and "same_frame F F'"
    and "\<forall>i j. i < mWidth F \<and> j < mHeight F \<longrightarrow>
               pixel F' i j =
                 (if b \<le> j \<and> j < e
                  then Some (traced_pixel T (mPixels F ! (unat i + unat j * unat (mWidth F))) i j
                               (2 * mSubPixels T * (mWidth F * (j - b) + i)))
                  else pixel F i j)"
    by blast
  then show ?thesis by (auto simp: opaque_rows_def traced_pixel_alpha)
qed

lemma opaque_rows_empty: "Film_valid F \<Longrightarrow> \<not> b < e \<Longrightarrow> opaque_rows b e F F"
  by (auto simp: opaque_rows_def same_frame_def)

lemma opaque_rows_trans:
  assumes "b \<le> m" and "m \<le> e" and "opaque_rows b m F G" and "opaque_rows m e G H"
  shows "opaque_rows b e F H"
proof -
  have dims: "mWidth G = mWidth F" "mHeight G = mHeight F"
    using assms(3) by (simp_all add: opaque_rows_def same_frame_def)
  have "if b \<le> j \<and> j < e then (\<exists>p. pixel H i j = Some p \<and> aC p = 1)
        else pixel H i j = pixel F i j"
    if ij: "i < mWidth F" "j < mHeight F" for i j
  proof -
    have G: "if b \<le> j \<and> j < m then (\<exists>p. pixel G i j = Some p \<and> aC p = 1)
             else pixel G i j = pixel F i j"
      using assms(3) ij by (simp add: opaque_rows_def)
    have H: "if m \<le> j \<and> j < e then (\<exists>p. pixel H i j = Some p \<and> aC p = 1)
             else pixel H i j = pixel G i j"
      using assms(4) ij dims by (simp add: opaque_rows_def)
    show ?thesis
    proof (cases "m \<le> j")
      case True
      then have "b \<le> j" and "\<not> j < m" using assms(1) by auto
      then show ?thesis using G H True by (auto split: if_splits)
    next
      case False
      then have "j < m" by simp
      then have "j < e" using assms(2) by simp
      then show ?thesis using G H False by (auto split: if_splits)
    qed
  qed
  moreover have "Film_valid H" using assms(4) by (simp add: opaque_rows_def)
  moreover have "same_frame F H"
    using assms(3,4) by (auto simp: opaque_rows_def intro: same_frame_trans)
  ultimately show ?thesis by (simp add: opaque_rows_def)
qed

lemma parallel_for_opaque:
  assumes "tracer_valid T"
  shows "Film_valid F \<Longrightarrow> b \<le> e \<Longrightarrow> e \<le> mHeight F
         \<Longrightarrow> \<exists>F'. parallel_for sched (b, e) (operator_call T) F = Some F' \<and> opaque_rows b e F F'"
proof (induction sched arbitrary: b e F)
  case Run
  show ?case
  proof (cases "b < e")
    case True
    then show ?thesis using operator_call_opaque [OF Run.prems(1) assms Run.prems(2,3)] by simp
  next
    case False
    then show ?thesis using opaque_rows_empty [OF Run.prems(1)] by simp
  qed
next
  case (Split l r)
  show ?case
  proof (cases "b < e \<and> 1 < e - b")
    case False
    have "\<exists>F'. parallel_for Run (b, e) (operator_call T) F = Some F' \<and> opaque_rows b e F F'"
    proof (cases "b < e")
      case True
      then show ?thesis
        using operator_call_opaque [OF Split.prems(1) assms Split.prems(2,3)] by simp
    next
      case False
      then show ?thesis using opaque_rows_empty [OF Split.prems(1)] by simp
    qed
    then show ?thesis using False by auto
  next
    case True
    let ?m = "b + (e - b) div 2"
    have bm: "b < ?m" and me: "?m < e" using midpoint_bounds True by simp_all
    then have bm': "b \<le> ?m" and me': "?m \<le> e" by simp_all
    have mH: "?m \<le> mHeight F" using me' Split.prems(3) by simp
    from Split.IH(1) [OF Split.prems(1) bm' mH]
    obtain G where G: "parallel_for l (b, ?m) (operator_call T) F = Some G"
      and oG: "opaque_rows b ?m F G" by blast
    have validG: "Film_valid G" and hG: "mHeight G = mHeight F"
      using oG by (simp_all add: opaque_rows_def same_frame_def)
    from Split.IH(2) [OF validG me'] Split.prems(3) hG
    obtain H where H: "parallel_for r (?m, e) (operator_call T) G = Some H"
      and oH: "opaque_rows ?m e G H" by auto
    have "parallel_for (Split l r) (b, e) (operator_call T) F = Some H"
      using True G H by simp
    then show ?thesis using opaque_rows_trans [OF bm' me' oG oH] by blast
  qed
qed

text \<open>
  C10. Scalar multiplication, component-wise multiplication and binary addition of
  colours return alpha 1 whatever the operands are. Hence after a trace of a well-formed
  film, threaded under any schedule or unthreaded, every pixel of the film has alpha 1,
  whatever the alpha of the shader's output and of the background was.
\<close>

theorem traced_alpha_one:
  assumes "Film_valid F" and "tracer_valid T"
  shows "aC (RGBA_scale c scale) = 1 \<and> aC (RGBA_times c rhs) = 1 \<and> aC (RGBA_plus c rhs) = 1
         \<and> (\<exists>F'. trace T threaded sched F = Some F'
               \<and> (\<forall>i j. i < mWidth F \<and> j < mHeight F \<longrightarrow>
                     (\<exists>p. pixel F' i j = Some p \<and> aC p = 1)))"
proof -
  have ops: "aC (RGBA_scale c scale) = 1 \<and> aC (RGBA_times c rhs) = 1 \<and> aC (RGBA_plus c rhs) = 1"
    by (simp add: RGBA_scale_def RGBA_times_def RGBA_plus_def RGBA3_def)
  have "\<exists>F'. trace T threaded sched F = Some F' \<and> opaque_rows 0 (mHeight F) F F'"
  proof (cases threaded)
    case True
    then show ?thesis
      using parallel_for_opaque [OF assms(2) assms(1), of 0 "mHeight F" sched]
      by (simp add: trace_def operator_call_copy)
  next
    case False
    then show ?thesis
      using operator_call_opaque [OF assms, of 0 "mHeight F"] by (simp add: trace_def)
  qed
  then obtain F' where "trace T threaded sched F = Some F'"
    and "opaque_rows 0 (mHeight F) F F'" by blast
  then have "\<exists>F'. trace T threaded sched F = Some F'
               \<and> (\<forall>i j. i < mWidth F \<and> j < mHeight F \<longrightarrow>
                     (\<exists>p. pixel F' i j = Some p \<and> aC p = 1))"
    by (auto simp: opaque_rows_def)
  then show ?thesis using ops by blast
qed

theorem traced_alpha_one_witness:
  "Film_valid veiled_film \<and> tracer_valid translucent_tracer
   \<and> (\<exists>F'. trace translucent_tracer True (Split Run Run) veiled_film = Some F'
         \<and> (\<forall>i j. i < mWidth veiled_film \<and> j < mHeight veiled_film \<longrightarrow>
               (\<exists>p. pixel F' i j = Some p \<and> aC p = 1)))"
proof -
  have h: "Film_valid veiled_film" "tracer_valid translucent_tracer"
    by (simp_all add: Film_valid_def veiled_film_def example_film_def tracer_valid_def
                      translucent_tracer_def example_tracer_def)
  show ?thesis using h traced_alpha_one [OF h, of _ _ _ True "Split Run Run"] by blast
qed

section \<open>One sample per pixel\<close>

lemma average_single: "(average [c])\<lparr>aC := 1\<rparr> = c\<lparr>aC := 1\<rparr>"
  by (simp add: average_def)

lemma operator_call_no_table:
  assumes "mSubPixels T = 0"
  shows "operator_call (T\<lparr>mRand := tbl\<rparr>) = operator_call T"
proof -
  have "pixel_step (T\<lparr>mRand := tbl\<rparr>) = pixel_step T"
    using assms
    by (intro ext)
       (simp add: pixel_step_def for_loop_done shade_or_bg_def
             cong: option.case_cong prod.case_cong)
  then have "row_step (T\<lparr>mRand := tbl\<rparr>) = row_step T"
    by (intro ext) (simp add: row_step_def)
  then show ?thesis by (simp add: operator_call_def)
qed

text \<open>
  C5, as the code has it. A tracer constructed with \<open>pixelSamples = 1\<close> has no jitter
  table (\<^verbatim>\<open>mRand\<close> is \<^verbatim>\<open>NULL\<close>), its trace of a well-formed film succeeds and does
  not depend on what \<^verbatim>\<open>mRand\<close> is, and every pixel receives the red, green and blue of
  the result of the single primary ray with the offsets (0.5, 0.5), that is the shader's
  output on a hit and the previous value of the pixel on a miss, with the alpha set to 1.
\<close>

theorem trace_single_sample:
  assumes "Film_valid F"
  shows "\<exists>T. LevelSetRayTracer_ctor rand01 intersector shader camera 1 seed = Some T
           \<and> mRand T = None
           \<and> (\<forall>tbl. trace (T\<lparr>mRand := tbl\<rparr>) threaded sched F = trace T threaded sched F)
           \<and> (\<exists>F'. trace T threaded sched F = Some F'
                 \<and> (\<forall>i j. i < mWidth F \<and> j < mHeight F \<longrightarrow>
                       (\<exists>bg. pixel F i j = Some bg
                          \<and> pixel F' i j
                            = Some ((case intersector (camera i j (1/2) (1/2)) of
                                       None \<Rightarrow> bg
                                     | Some (xyz, nml) \<Rightarrow> shader xyz nml (camera i j (1/2) (1/2)))
                                    \<lparr>aC := 1\<rparr>))))"
proof -
  let ?T = "\<lparr>mIsMaster = True, mRand = None, mInter = intersector, mShader = shader,
             mCamera = camera, mSubPixels = 0\<rparr>"
  have ctor: "LevelSetRayTracer_ctor rand01 intersector shader camera 1 seed = Some ?T"
    by (simp add: LevelSetRayTracer_ctor_def setPixelSamples_def)
  have Tv: "tracer_valid ?T" by (simp add: tracer_valid_def)
  have seq: "trace U threaded sched F = operator_call U (0, mHeight F) F"
    if "mSubPixels U = 0" for U
  proof (cases threaded)
    case True
    have "\<forall>(b, e) \<in> set (dispatched sched (0, mHeight F)).
            (2 * mSubPixels U * mWidth F * b) AND 15 = 0"
      using that by simp
    from parallel_for_aligned [OF this] True show ?thesis
      by (simp add: trace_def operator_call_copy)
  next
    case False
    then show ?thesis by (simp add: trace_def)
  qed
  have table: "trace (?T\<lparr>mRand := tbl\<rparr>) threaded sched F = trace ?T threaded sched F" for tbl
    using seq [of "?T\<lparr>mRand := tbl\<rparr>"] seq [of ?T] operator_call_no_table [of ?T tbl]
    by simp
  from operator_call_pixels [OF assms Tv, of 0 "mHeight F"]
  obtain F' where res: "operator_call ?T (0, mHeight F) F = Some F'"
    and px: "\<And>i j. i < mWidth F \<Longrightarrow> j < mHeight F \<Longrightarrow>
               pixel F' i j
               = Some (traced_pixel ?T (mPixels F ! (unat i + unat j * unat (mWidth F))) i j
                         (2 * mSubPixels ?T * (mWidth F * (j - 0) + i)))"
    by auto
  have shape: "traced_pixel ?T bg i j n
               = (case intersector (camera i j (1/2) (1/2)) of
                    None \<Rightarrow> bg
                  | Some (xyz, nml) \<Rightarrow> shader xyz nml (camera i j (1/2) (1/2)))\<lparr>aC := 1\<rparr>"
    for bg i j n
    by (simp add: traced_pixel_def pixel_rays_def jitter_rays_def average_single shade_or_bg_def
             cong: option.case_cong prod.case_cong)
  have "\<exists>bg. pixel F i j = Some bg
          \<and> pixel F' i j
            = Some ((case intersector (camera i j (1/2) (1/2)) of
                       None \<Rightarrow> bg
                     | Some (xyz, nml) \<Rightarrow> shader xyz nml (camera i j (1/2) (1/2)))\<lparr>aC := 1\<rparr>)"
    if "i < mWidth F" and "j < mHeight F" for i j
    using px [OF that] pixel_valid [OF assms that] by (simp only: shape) simp
  moreover have "trace ?T threaded sched F = Some F'" using seq [of ?T] res by simp
  ultimately show ?thesis using ctor table by (intro exI [of _ ?T]) auto
qed

theorem trace_single_sample_witness:
  "Film_valid veiled_film
   \<and> (\<exists>T. LevelSetRayTracer_ctor example_rand01 empty_level_set (MatteShader (RGBA_intensity 1))
             (OrthographicCamera_getRay example_camera) 1 0 = Some T
         \<and> mRand T = None
         \<and> (\<exists>F'. trace T True (Split Run Run) veiled_film = Some F'
               \<and> (\<forall>i j. i < mWidth veiled_film \<and> j < mHeight veiled_film \<longrightarrow>
                     (\<exists>bg. pixel veiled_film i j = Some bg
                        \<and> pixel F' i j
                          = Some ((case empty_level_set
                                          (OrthographicCamera_getRay example_camera i j (1/2) (1/2)) of
                                     None \<Rightarrow> bg
                                   | Some (xyz, nml) \<Rightarrow>
                                       MatteShader (RGBA_intensity 1) xyz nml
                                         (OrthographicCamera_getRay example_camera i j (1/2) (1/2)))
                                  \<lparr>aC := 1\<rparr>)))))"
proof -
  have h: "Film_valid veiled_film"
    by (simp add: Film_valid_def veiled_film_def example_film_def)
  show ?thesis
    using h trace_single_sample [OF h, of example_rand01 empty_level_set
        "MatteShader (RGBA_intensity 1)" "OrthographicCamera_getRay example_camera" 0
        True "Split Run Run"]
    by blast
qed

lemma single_sample_trace:
  "trace single_sample_tracer False Run veiled_film
   = Some (veiled_film\<lparr>mPixels := [\<lparr>rC = 1/5, gC = 1/5, bC = 1/5, aC = 1\<rparr>,
                                    \<lparr>rC = 1/5, gC = 1/5, bC = 1/5, aC = 1\<rparr>]\<rparr>)"
  by (simp add: trace_def operator_call_def row_step_def pixel_step_def
        for_loop.simps example_film_def veiled_film_def single_sample_tracer_def
        pixel_def pixel_assign_def array_get_def shade_or_bg_def empty_level_set_def
        RGBA_scale_def RGBA3_def)

text \<open>
  C5 as stated fails in the alpha channel: over the empty level set the primary ray of
  pixel (0,0) misses, its result is the background with alpha 1/4, and the pixel written
  has alpha 1.
\<close>

theorem single_sample_alpha_reset:
  "LevelSetRayTracer_ctor example_rand01 empty_level_set (MatteShader (RGBA_intensity 1))
     (OrthographicCamera_getRay example_camera) 1 0 = Some single_sample_tracer
   \<and> trace single_sample_tracer False Run veiled_film
     = Some (veiled_film\<lparr>mPixels := [\<lparr>rC = 1/5, gC = 1/5, bC = 1/5, aC = 1\<rparr>,
                                      \<lparr>rC = 1/5, gC = 1/5, bC = 1/5, aC = 1\<rparr>]\<rparr>)
   \<and> pixel veiled_film 0 0 = Some \<lparr>rC = 1/5, gC = 1/5, bC = 1/5, aC = 1/4\<rparr>
   \<and> shade_or_bg single_sample_tracer \<lparr>rC = 1/5, gC = 1/5, bC = 1/5, aC = 1/4\<rparr>
        (mCamera single_sample_tracer 0 0 (1/2) (1/2))
     = \<lparr>rC = 1/5, gC = 1/5, bC = 1/5, aC = 1/4\<rparr>
   \<and> pixel (veiled_film\<lparr>mPixels := [\<lparr>rC = 1/5, gC = 1/5, bC = 1/5, aC = 1\<rparr>,
                                      \<lparr>rC = 1/5, gC = 1/5, bC = 1/5, aC = 1\<rparr>]\<rparr>) 0 0
     \<noteq> Some (shade_or_bg single_sample_tracer \<lparr>rC = 1/5, gC = 1/5, bC = 1/5, aC = 1/4\<rparr>
               (mCamera single_sample_tracer 0 0 (1/2) (1/2)))"
  unfolding single_sample_trace
  by (simp add: LevelSetRayTracer_ctor_def setPixelSamples_def single_sample_tracer_def
        pixel_def array_get_def veiled_film_def example_film_def shade_or_bg_def
        empty_level_set_def)

end
